theory Spec2Isabelle
  imports Main
begin

section \<open>Incremental sync of a logo tree to an object store (sync-to-r2.js)\<close>

text \<open>
  A shallow embedding of \<^verbatim>\<open>sync-to-r2.js\<close>. Every call that leaves the
  script (file system, MD5, the S3 client) is a field of a record handed to the model;
  a thrown exception is the \<open>Inl\<close> of a sum; the counters, the error list, the console
  and the bucket are a state record passed from one loop iteration to the next.
\<close>

subsection \<open>JavaScript values and errors\<close>

text \<open>An \<^verbatim>\<open>Error\<close> object, as far as the script looks at it: its name and message.\<close>

datatype js_error = Error (error_name: string) (error_message: string)

text \<open>What \<^verbatim>\<open>getR2FileETag\<close> can return: \<^verbatim>\<open>null\<close>, \<^verbatim>\<open>undefined\<close> or a string.\<close>

datatype js_value = Null | Undefined | Str string

text \<open>JavaScript truthiness of such a value, as used by \<^verbatim>\<open>r2Hash ? ... : ...\<close>.\<close>

fun truthy :: "js_value \<Rightarrow> bool" where
  "truthy Null = False"
| "truthy Undefined = False"
| "truthy (Str s) = (s \<noteq> [])"

text \<open>\<^verbatim>\<open>String.prototype.endsWith\<close>.\<close>

definition endsWith :: "string \<Rightarrow> string \<Rightarrow> bool" where
  "endsWith s suf = (length suf \<le> length s \<and> drop (length s - length suf) s = suf)"

text \<open>
  Case folding of the regular expression flag \<^verbatim>\<open>i\<close> (without \<^verbatim>\<open>u\<close>): on the
  letters of the pattern it identifies exactly the ASCII upper-case and lower-case letter.
\<close>

definition lower_char :: "char \<Rightarrow> char" where
  "lower_char c =
     (let n = (of_char c :: nat) in if 65 \<le> n \<and> n \<le> 90 then char_of (n + 32) else c)"

text \<open>\<^verbatim>\<open>file.name.match(/\.(svg|png|json)$/i)\<close>.\<close>

definition match_ext :: "string \<Rightarrow> bool" where
  "match_ext fname =
     (let l = map lower_char fname
      in endsWith l ''.svg'' \<or> endsWith l ''.png'' \<or> endsWith l ''.json'')"

text \<open>
  \<^verbatim>\<open>path.join(dir, name)\<close> for a normalised directory and a directory entry's name,
  and \<^verbatim>\<open>path.relative(from, to)\<close> for a path that \<open>join\<close> built below \<open>from\<close>.
\<close>

definition join :: "string \<Rightarrow> string \<Rightarrow> string" where
  "join dir fname = dir @ ''/'' @ fname"

definition relative :: "string \<Rightarrow> string \<Rightarrow> string" where
  "relative from to = drop (length from + 1) to"

text \<open>The remote key of a file: the template \<^verbatim>\<open>`football_logos/${relativePath}`\<close>.\<close>

definition key_of :: "string \<Rightarrow> string" where
  "key_of relativePath = ''football_logos/'' @ relativePath"

subsection \<open>Configuration\<close>

text \<open>The environment variables the script reads; \<open>None\<close> is an unset variable.\<close>

record environment =
  CLOUDFLARE_ACCOUNT_ID :: "string option"
  R2_ACCESS_KEY_ID :: "string option"
  R2_SECRET_ACCESS_KEY :: "string option"
  R2_BUCKET_NAME :: "string option"
  R2_PUBLIC_URL :: "string option"

record config =
  accountId :: "string option"
  accessKeyId :: "string option"
  secretAccessKey :: "string option"
  bucketName :: "string option"
  publicUrl :: "string option"

text \<open>\<^verbatim>\<open>!v\<close> for a value that is a string or \<^verbatim>\<open>undefined\<close>.\<close>

fun falsy :: "string option \<Rightarrow> bool" where
  "falsy None = True"
| "falsy (Some s) = (s = [])"

text \<open>\<^verbatim>\<open>a || b\<close> with a string default.\<close>

definition or_default :: "string option \<Rightarrow> string \<Rightarrow> string option" where
  "or_default v d = (if falsy v then Some d else v)"

definition config_of :: "environment \<Rightarrow> config" where
  "config_of env =
     \<lparr> accountId = CLOUDFLARE_ACCOUNT_ID env,
       accessKeyId = R2_ACCESS_KEY_ID env,
       secretAccessKey = R2_SECRET_ACCESS_KEY env,
       bucketName = or_default (R2_BUCKET_NAME env) ''football-logos'',
       publicUrl = R2_PUBLIC_URL env \<rparr>"

text \<open>\<^verbatim>\<open>config[key]\<close>.\<close>

definition config_get :: "config \<Rightarrow> string \<Rightarrow> string option" where
  "config_get c key =
     (if key = ''accountId'' then accountId c
      else if key = ''accessKeyId'' then accessKeyId c
      else if key = ''secretAccessKey'' then secretAccessKey c
      else if key = ''bucketName'' then bucketName c
      else if key = ''publicUrl'' then publicUrl c
      else None)"

definition required :: "string list" where
  "required = [''accountId'', ''accessKeyId'', ''secretAccessKey'', ''bucketName'']"

definition envVar :: "string \<Rightarrow> string" where
  "envVar key =
     (if key = ''accountId'' then ''CLOUDFLARE_ACCOUNT_ID''
      else if key = ''accessKeyId'' then ''R2_ACCESS_KEY_ID''
      else if key = ''secretAccessKey'' then ''R2_SECRET_ACCESS_KEY''
      else ''R2_BUCKET_NAME'')"

text \<open>
  \<^verbatim>\<open>validateConfig\<close>: \<open>None\<close> when it returns, \<open>Some names\<close> when it prints the
  names and calls \<^verbatim>\<open>process.exit(1)\<close>.
\<close>

definition validateConfig :: "config \<Rightarrow> string list option" where
  "validateConfig c =
     (let missing = filter (\<lambda>key. falsy (config_get c key)) required
      in if length missing > 0 then Some (map envVar missing) else None)"

subsection \<open>The local machine and the remote store\<close>

text \<open>
  The local calls: \<^verbatim>\<open>readFile\<close> and \<^verbatim>\<open>statSync\<close> either throw or return,
  \<open>md5\<close> is \<^verbatim>\<open>createHash('md5').update(buf).digest('hex')\<close>.
\<close>

record host =
  readFile :: "string \<Rightarrow> js_error + string"
  statSync :: "string \<Rightarrow> js_error + nat"
  md5 :: "string \<Rightarrow> string"

text \<open>An object of the bucket: the tag the store answers a HEAD with, and its content type.\<close>

record stored_object =
  ETag :: "string option"
  ContentType :: string

type_synonym bucket = "string \<rightharpoonup> stored_object"

text \<open>
  The store during one run: a request for a key may fail (\<open>head_fault\<close>, \<open>put_fault\<close>:
  permission, transport, malformed answer), and \<open>etag_of\<close> is the tag the store computes
  for an uploaded body.
\<close>

record remote =
  head_fault :: "string \<Rightarrow> js_error option"
  put_fault :: "string \<Rightarrow> js_error option"
  etag_of :: "string \<Rightarrow> string option"

text \<open>The answer to \<^verbatim>\<open>r2Client.send(new HeadObjectCommand(...))\<close>.\<close>

datatype head_result = Response "string option" | Throws js_error

definition NotFound :: js_error where
  "NotFound = Error ''NotFound'' ''UnknownError''"

definition send_head :: "remote \<Rightarrow> bucket \<Rightarrow> string \<Rightarrow> head_result" where
  "send_head rem b key =
     (case head_fault rem key of
        Some e \<Rightarrow> Throws e
      | None \<Rightarrow> (case b key of None \<Rightarrow> Throws NotFound | Some obj \<Rightarrow> Response (ETag obj)))"

text \<open>
  \<^verbatim>\<open>r2Client.send(new PutObjectCommand(...))\<close> with a stream as body: a stream that
  cannot be read, or a failing request, throws and leaves the bucket as it was.
\<close>

definition send_put ::
  "remote \<Rightarrow> bucket \<Rightarrow> string \<Rightarrow> js_error + string \<Rightarrow> string \<Rightarrow> js_error + bucket" where
  "send_put rem b key body contentType =
     (case body of
        Inl e \<Rightarrow> Inl e
      | Inr content \<Rightarrow>
          (case put_fault rem key of
             Some e \<Rightarrow> Inl e
           | None \<Rightarrow> Inr (b(key \<mapsto> \<lparr> ETag = etag_of rem content, ContentType = contentType \<rparr>))))"

subsection \<open>Fingerprint and remote state\<close>

definition getFileHash :: "host \<Rightarrow> string \<Rightarrow> js_error + string" where
  "getFileHash h filePath =
     (case readFile h filePath of Inl e \<Rightarrow> Inl e | Inr fileBuffer \<Rightarrow> Inr (md5 h fileBuffer))"

text \<open>\<^verbatim>\<open>s.replace(/"/g, '')\<close>.\<close>

definition strip_quotes :: "string \<Rightarrow> string" where
  "strip_quotes s = filter (\<lambda>c. c \<noteq> CHR 0x22) s"

text \<open>\<^verbatim>\<open>getR2FileETag\<close>, applied to the answer of the HEAD request.\<close>

fun etag_result :: "head_result \<Rightarrow> js_error + js_value" where
  "etag_result (Response None) = Inr Undefined"
| "etag_result (Response (Some t)) = Inr (Str (strip_quotes t))"
| "etag_result (Throws error) =
     (if error_name error = ''NotFound'' then Inr Null else Inl error)"

definition getR2FileETag :: "remote \<Rightarrow> bucket \<Rightarrow> string \<Rightarrow> js_error + js_value" where
  "getR2FileETag rem b key = etag_result (send_head rem b key)"

subsection \<open>Local tree scanner\<close>

text \<open>
  What \<^verbatim>\<open>readdir(dir, { withFileTypes: true })\<close> finds: it throws, or lists entries;
  an entry is a directory (with what reading it gives) or anything else
  (\<^verbatim>\<open>isDirectory()\<close> is false: a file, a symbolic link, a socket).
\<close>

datatype dirent = NonDirectory | Directory listing
and listing = ReaddirThrows js_error | Entries "(string \<times> dirent) list"

text \<open>
  \<^verbatim>\<open>getFiles\<close> and its \<^verbatim>\<open>for\<close> loop. No exception is caught here: a
  \<^verbatim>\<open>readdir\<close> that throws anywhere below ends the whole scan with that error.
\<close>

fun getFiles :: "string \<Rightarrow> listing \<Rightarrow> string list \<Rightarrow> js_error + string list"
and getFiles_loop :: "string \<Rightarrow> (string \<times> dirent) list \<Rightarrow> string list \<Rightarrow> js_error + string list"
where
  "getFiles dir (ReaddirThrows e) fileList = Inl e"
| "getFiles dir (Entries files) fileList = getFiles_loop dir files fileList"
| "getFiles_loop dir [] fileList = Inr fileList"
| "getFiles_loop dir ((fname, NonDirectory) # files) fileList =
     getFiles_loop dir files
       (if match_ext fname then fileList @ [join dir fname] else fileList)"
| "getFiles_loop dir ((fname, Directory sub) # files) fileList =
     (case getFiles (join dir fname) sub fileList of
        Inl e \<Rightarrow> Inl e
      | Inr fileList' \<Rightarrow> getFiles_loop dir files fileList')"

subsection \<open>Run state\<close>

text \<open>One line of the per-file console output.\<close>

datatype log_line =
    Skip string
  | Uploaded string
  | Updated string
  | ErrorLine string string

text \<open>
  The calls the per-file pipeline makes, in order: \<^verbatim>\<open>readFile\<close>, the HEAD request,
  \<^verbatim>\<open>statSync\<close> and the PUT request with its content type. (The scanner's
  \<^verbatim>\<open>readdir\<close> calls come before all of them and are not listed.)
\<close>

datatype io_op =
    ReadFile string
  | HeadObject string
  | StatSync string
  | PutObject string string

fun network_call :: "io_op \<Rightarrow> bool" where
  "network_call (HeadObject key) = True"
| "network_call (PutObject key contentType) = True"
| "network_call (ReadFile p) = False"
| "network_call (StatSync p) = False"

text \<open>
  The variables of \<^verbatim>\<open>syncToR2\<close> (\<open>uploaded\<close>, \<open>skipped\<close>, \<open>totalBytes\<close>,
  \<open>errors\<close>), with the bucket, the console lines and the calls made so far. \<open>died\<close>
  says that a read stream nobody listens to has failed to open: its \<^verbatim>\<open>'error'\<close> event
  is unhandled, and the process ends with it at the next turn of the event loop.
\<close>

record sync_state =
  uploaded :: nat
  skipped :: nat
  totalBytes :: nat
  errors :: "(string \<times> string) list"
  objects :: bucket
  console :: "log_line list"
  ops :: "io_op list"
  died :: bool

definition init_state :: "bucket \<Rightarrow> sync_state" where
  "init_state b =
     \<lparr> uploaded = 0, skipped = 0, totalBytes = 0, errors = [],
       objects = b, console = [], ops = [], died = False \<rparr>"

definition called :: "io_op \<Rightarrow> sync_state \<Rightarrow> sync_state" where
  "called op st = st\<lparr> ops := ops st @ [op] \<rparr>"

subsection \<open>Object uploader\<close>

definition contentType_of :: "string \<Rightarrow> string" where
  "contentType_of localPath =
     (if endsWith localPath ''.svg'' then ''image/svg+xml''
      else if endsWith localPath ''.png'' then ''image/png''
      else if endsWith localPath ''.json'' then ''application/json''
      else ''application/octet-stream'')"

text \<open>
  \<^verbatim>\<open>uploadFile\<close>. \<^verbatim>\<open>createReadStream\<close> returns at once and opens the file
  later; the stream delivers what \<^verbatim>\<open>readFile\<close> reads (files do not change during a
  run). \<^verbatim>\<open>statSync\<close> comes next. When it throws, nothing is sent and the stream is
  left without any listener; a path that cannot be stat'ed cannot be opened either, so
  the stream fails and its \<^verbatim>\<open>'error'\<close> event is unhandled (\<open>died\<close>). When it returns,
  the stream is the body of the PUT, and the size returned is the one \<^verbatim>\<open>statSync\<close>
  gave.
\<close>

definition uploadFile ::
  "host \<Rightarrow> remote \<Rightarrow> sync_state \<Rightarrow> string \<Rightarrow> string \<Rightarrow> sync_state \<times> (js_error + nat)" where
  "uploadFile h rem st localPath r2Key =
     (let fileStream = readFile h localPath;
          st1 = called (StatSync localPath) st
      in case statSync h localPath of
           Inl e \<Rightarrow> (st1\<lparr> died := True \<rparr>, Inl e)
         | Inr stats_size \<Rightarrow>
             (let contentType = contentType_of localPath;
                  st2 = called (PutObject r2Key contentType) st1
              in case send_put rem (objects st2) r2Key fileStream contentType of
                   Inl e \<Rightarrow> (st2, Inl e)
                 | Inr b \<Rightarrow> (st2\<lparr> objects := b \<rparr>, Inr stats_size)))"

subsection \<open>Sync orchestrator\<close>

text \<open>The inner \<^verbatim>\<open>catch\<close>: the file and the error's message join the error list.\<close>

definition record_error :: "sync_state \<Rightarrow> string \<Rightarrow> js_error \<Rightarrow> sync_state" where
  "record_error st relativePath error =
     st\<lparr> errors := errors st @ [(relativePath, error_message error)],
         console := console st @ [ErrorLine relativePath (error_message error)] \<rparr>"

text \<open>
  The body of the \<^verbatim>\<open>try\<close> block of the loop: the state it reaches, and the
  exception that left it, if any.
\<close>

definition try_block ::
  "host \<Rightarrow> remote \<Rightarrow> sync_state \<Rightarrow> string \<Rightarrow> string \<Rightarrow> string \<Rightarrow> sync_state \<times> js_error option" where
  "try_block h rem st localPath relativePath r2Key =
     (let st1 = called (ReadFile localPath) st
      in case getFileHash h localPath of
           Inl error \<Rightarrow> (st1, Some error)
         | Inr localHash \<Rightarrow>
             (let st2 = called (HeadObject r2Key) st1
              in case getR2FileETag rem (objects st2) r2Key of
                   Inl error \<Rightarrow> (st2, Some error)
                 | Inr r2Hash \<Rightarrow>
                     if r2Hash = Str localHash
                     then (st2\<lparr> skipped := skipped st2 + 1,
                                console := console st2 @ [Skip relativePath] \<rparr>, None)
                     else (case uploadFile h rem st2 localPath r2Key of
                             (st3, Inl error) \<Rightarrow> (st3, Some error)
                           | (st3, Inr bytes) \<Rightarrow>
                               (st3\<lparr> totalBytes := totalBytes st3 + bytes,
                                      uploaded := uploaded st3 + 1,
                                      console := console st3 @
                                        [if truthy r2Hash then Updated relativePath
                                         else Uploaded relativePath] \<rparr>, None))))"

text \<open>
  The body of the \<^verbatim>\<open>for (const localPath of localFiles)\<close> loop: the
  \<^verbatim>\<open>try\<close> block and its \<^verbatim>\<open>catch\<close>.
\<close>

definition process_file :: "host \<Rightarrow> remote \<Rightarrow> string \<Rightarrow> sync_state \<Rightarrow> string \<Rightarrow> sync_state" where
  "process_file h rem logosDir st localPath =
     (let relativePath = relative logosDir localPath;
          r2Key = key_of relativePath
      in case try_block h rem st localPath relativePath r2Key of
           (st', None) \<Rightarrow> st'
         | (st', Some error) \<Rightarrow> record_error st' relativePath error)"

text \<open>
  The loop. An iteration that leaves an unhandled stream error behind is the last: its
  \<^verbatim>\<open>catch\<close> still records the error that \<^verbatim>\<open>statSync\<close> threw, the loop goes on
  to the following file, if there is one, and calls \<^verbatim>\<open>readFile\<close> for its digest, and
  the process ends while the loop waits for that read.
\<close>

fun sync_loop :: "host \<Rightarrow> remote \<Rightarrow> string \<Rightarrow> sync_state \<Rightarrow> string list \<Rightarrow> sync_state" where
  "sync_loop h rem logosDir st [] = st"
| "sync_loop h rem logosDir st (localPath # localFiles) =
     (let st' = process_file h rem logosDir st localPath
      in if died st'
         then (case localFiles of
                 [] \<Rightarrow> st'
               | nextPath # later \<Rightarrow> called (ReadFile nextPath) st')
         else sync_loop h rem logosDir st' localFiles)"

text \<open>
  How the process ends: \<^verbatim>\<open>validateConfig\<close> exits with status 1 after printing the
  missing names; the outer \<^verbatim>\<open>catch\<close> of \<^verbatim>\<open>syncToR2\<close> prints the message and exits
  with status 1; an unhandled stream error ends the process with status 1, in the state
  the loop had reached (the summary is printed only when the failing file was the last
  one); otherwise the summary is printed from the final state and the status is 0.
\<close>

datatype run_result =
    ConfigExit "string list"
  | SyncFailed string
  | StreamCrash sync_state
  | SyncComplete sync_state

fun exit_status :: "run_result \<Rightarrow> nat" where
  "exit_status (ConfigExit names) = 1"
| "exit_status (SyncFailed msg) = 1"
| "exit_status (StreamCrash st) = 1"
| "exit_status (SyncComplete st) = 0"

text \<open>The calls of the per-file pipeline made by the time the process ends.\<close>

fun calls_made :: "run_result \<Rightarrow> io_op list" where
  "calls_made (ConfigExit names) = []"
| "calls_made (SyncFailed msg) = []"
| "calls_made (StreamCrash st) = ops st"
| "calls_made (SyncComplete st) = ops st"

text \<open>What follows the loop: the summary, unless the process has died.\<close>

definition after_loop :: "sync_state \<Rightarrow> run_result" where
  "after_loop st = (if died st then StreamCrash st else SyncComplete st)"

definition syncToR2 :: "host \<Rightarrow> remote \<Rightarrow> bucket \<Rightarrow> string \<Rightarrow> listing \<Rightarrow> run_result" where
  "syncToR2 h rem b logosDir tree =
     (case getFiles logosDir tree [] of
        Inl error \<Rightarrow> SyncFailed (error_message error)
      | Inr localFiles \<Rightarrow> after_loop (sync_loop h rem logosDir (init_state b) localFiles))"

text \<open>The script from top to bottom: \<^verbatim>\<open>validateConfig()\<close>, then \<^verbatim>\<open>syncToR2()\<close>.\<close>

definition main ::
  "environment \<Rightarrow> host \<Rightarrow> remote \<Rightarrow> bucket \<Rightarrow> string \<Rightarrow> listing \<Rightarrow> run_result" where
  "main env h rem b logosDir tree =
     (case validateConfig (config_of env) of
        Some names \<Rightarrow> ConfigExit names
      | None \<Rightarrow> syncToR2 h rem b logosDir tree)"

subsection \<open>Human-readable byte counts\<close>

text \<open>
  \<^verbatim>\<open>Math.floor(Math.log(bytes) / Math.log(k))\<close> for an integer \<open>bytes \<ge> 1\<close> and
  \<open>k = 1024\<close>, taken as the exact value: the number of times \<open>bytes\<close> can be divided
  by \<open>k\<close> before it drops below \<open>k\<close>.
\<close>

function floor_log :: "nat \<Rightarrow> nat \<Rightarrow> nat" where
  "floor_log k n = (if k < 2 \<or> n < k then 0 else Suc (floor_log k (n div k)))"
  by pat_completeness auto
termination
  by (relation "measure (\<lambda>(k, n). n)") auto

declare floor_log.simps [simp del]

text \<open>
  \<^verbatim>\<open>Math.round(bytes / Math.pow(k, i) * 100)\<close>: the nearest integer to the number of
  hundredths, a half rounding up.
\<close>

definition round_hundredths :: "nat \<Rightarrow> nat \<Rightarrow> nat" where
  "round_hundredths bytes d = (2 * (bytes * 100) + d) div (2 * d)"

definition digit :: "nat \<Rightarrow> char" where
  "digit d = ''0123456789'' ! d"

function show_nat :: "nat \<Rightarrow> string" where
  "show_nat n = (if n < 10 then [digit n] else show_nat (n div 10) @ [digit (n mod 10)])"
  by pat_completeness auto
termination
  by (relation "measure id") auto

declare show_nat.simps [simp del]

text \<open>
  The string JavaScript gives the number \<open>m / 100\<close>: the integer part, and the
  decimals without trailing zeros.
\<close>

definition show_hundredths :: "nat \<Rightarrow> string" where
  "show_hundredths m =
     show_nat (m div 100) @
     (let f = m mod 100
      in if f = 0 then []
         else ''.'' @ [digit (f div 10)] @ (if f mod 10 = 0 then [] else [digit (f mod 10)]))"

definition sizes :: "string list" where
  "sizes = [''Bytes'', ''KB'', ''MB'', ''GB'']"

text \<open>\<^verbatim>\<open>' ' + sizes[i]\<close>: an index outside the array reads \<^verbatim>\<open>undefined\<close>.\<close>

definition sizes_at :: "nat \<Rightarrow> string" where
  "sizes_at i = (if i < length sizes then sizes ! i else ''undefined'')"

definition formatBytes :: "nat \<Rightarrow> string" where
  "formatBytes bytes =
     (if bytes = 0 then ''0 Bytes''
      else (let k = 1024;
                i = floor_log k bytes
            in show_hundredths (round_hundredths bytes (k ^ i)) @ '' '' @ sizes_at i))"

subsection \<open>Sync decision\<close>

text \<open>
  The loop body names no decision; it makes one with two tests: the comparison
  \<^verbatim>\<open>r2Hash === localHash\<close> (skip, or upload) and, for the message of an upload,
  \<^verbatim>\<open>r2Hash ? 'Updated' : 'Uploaded'\<close>. \<open>decision\<close> is the outcome of the two.
\<close>

datatype sync_decision = Unchanged | New | Modified

definition decision :: "js_value \<Rightarrow> string \<Rightarrow> sync_decision" where
  "decision r2Hash localHash =
     (if r2Hash = Str localHash then Unchanged
      else if truthy r2Hash then Modified
      else New)"

subsection \<open>Notions the properties are stated with\<close>

text \<open>
  The names of the credential variables that are unset or empty, and the names
  \<^verbatim>\<open>validateConfig\<close> would print for a configuration object, both in the order of
  \<open>required\<close>.
\<close>

definition unset_credentials :: "environment \<Rightarrow> string list" where
  "unset_credentials env =
     map fst (filter (\<lambda>(var, v). falsy v)
       [(''CLOUDFLARE_ACCOUNT_ID'', CLOUDFLARE_ACCOUNT_ID env),
        (''R2_ACCESS_KEY_ID'', R2_ACCESS_KEY_ID env),
        (''R2_SECRET_ACCESS_KEY'', R2_SECRET_ACCESS_KEY env)])"

definition missing_values :: "config \<Rightarrow> string list" where
  "missing_values c =
     map fst (filter (\<lambda>(var, v). falsy v)
       [(''CLOUDFLARE_ACCOUNT_ID'', accountId c),
        (''R2_ACCESS_KEY_ID'', accessKeyId c),
        (''R2_SECRET_ACCESS_KEY'', secretAccessKey c),
        (''R2_BUCKET_NAME'', bucketName c)])"

text \<open>
  The error of the first \<^verbatim>\<open>readdir\<close> that throws when the tree is walked in the
  order of \<^verbatim>\<open>getFiles\<close>, if any does.
\<close>

fun first_error :: "listing \<Rightarrow> js_error option"
and first_error_entries :: "(string \<times> dirent) list \<Rightarrow> js_error option"
where
  "first_error (ReaddirThrows e) = Some e"
| "first_error (Entries files) = first_error_entries files"
| "first_error_entries [] = None"
| "first_error_entries ((fname, NonDirectory) # files) = first_error_entries files"
| "first_error_entries ((fname, Directory sub) # files) =
     (case first_error sub of Some e \<Rightarrow> Some e | None \<Rightarrow> first_error_entries files)"

text \<open>
  The exception each file's \<^verbatim>\<open>try\<close> block ends with as the loop runs over the list
  (\<open>None\<close> when the block completes), for the files the loop reaches.
\<close>

fun thrown :: "host \<Rightarrow> remote \<Rightarrow> string \<Rightarrow> sync_state \<Rightarrow> string list \<Rightarrow> js_error option list" where
  "thrown h rem logosDir st [] = []"
| "thrown h rem logosDir st (localPath # localFiles) =
     snd (try_block h rem st localPath (relative logosDir localPath)
            (key_of (relative logosDir localPath))) #
     (let st' = process_file h rem logosDir st localPath
      in if died st' then [] else thrown h rem logosDir st' localFiles)"

text \<open>Two states with the same counters, the same bucket and the same fate.\<close>

definition same_counts :: "sync_state \<Rightarrow> sync_state \<Rightarrow> bool" where
  "same_counts s t \<longleftrightarrow>
     uploaded s = uploaded t \<and> skipped s = skipped t \<and> totalBytes s = totalBytes t \<and>
     objects s = objects t \<and> died s = died t"

text \<open>
  The bytes a file transfers when the loop handles it with the bucket as it is then: its
  size (the one \<^verbatim>\<open>statSync\<close> gives) when its digest and lookup succeed, it is
  classified New or Modified, \<^verbatim>\<open>statSync\<close> returns and the PUT request does not fail;
  nothing otherwise. \<open>transfers\<close> lists them for the files the loop reaches.
\<close>

definition transferred :: "host \<Rightarrow> remote \<Rightarrow> bucket \<Rightarrow> string \<Rightarrow> string \<Rightarrow> nat" where
  "transferred h rem b logosDir p =
     (case (getFileHash h p, getR2FileETag rem b (key_of (relative logosDir p)), statSync h p) of
        (Inr localHash, Inr r2Hash, Inr n) \<Rightarrow>
          if decision r2Hash localHash \<noteq> Unchanged \<and>
             put_fault rem (key_of (relative logosDir p)) = None
          then n else 0
      | _ \<Rightarrow> 0)"

fun transfers :: "host \<Rightarrow> remote \<Rightarrow> string \<Rightarrow> sync_state \<Rightarrow> string list \<Rightarrow> nat list" where
  "transfers h rem logosDir st [] = []"
| "transfers h rem logosDir st (localPath # localFiles) =
     transferred h rem (objects st) logosDir localPath #
     (let st' = process_file h rem logosDir st localPath
      in if died st' then [] else transfers h rem logosDir st' localFiles)"

text \<open>
  The store's side of the comparison: the tag it computes for an uploaded body is, once
  its double quotes are removed, the digest the local machine computes for the same bytes
  (an S3-compatible store answers a single-part upload with the quoted MD5 of the body).
\<close>

definition tags_with_digest :: "host \<Rightarrow> remote \<Rightarrow> bool" where
  "tags_with_digest h rem \<longleftrightarrow>
     (\<forall>body. \<exists>t. etag_of rem body = Some t \<and> strip_quotes t = md5 h body)"

text \<open>
  A file is in sync with a bucket when it can be read and the object under its key
  carries a tag that, without its quotes, is the digest of the file's bytes.
\<close>

definition in_sync :: "host \<Rightarrow> bucket \<Rightarrow> string \<Rightarrow> string \<Rightarrow> bool" where
  "in_sync h objs logosDir p \<longleftrightarrow>
     (\<exists>content obj t. readFile h p = Inr content \<and>
        objs (key_of (relative logosDir p)) = Some obj \<and> ETag obj = Some t \<and>
        strip_quotes t = md5 h content)"

text \<open>A path below a directory: it starts with the directory and a separator.\<close>

definition below :: "string \<Rightarrow> string \<Rightarrow> bool" where
  "below dir p \<longleftrightarrow> take (length dir + 1) p = dir @ ''/''"

text \<open>
  A lookup that fails for a key fails with an error other than \<open>NotFound\<close>: the store
  does not report an object missing that it holds.
\<close>

definition genuine_faults :: "remote \<Rightarrow> string \<Rightarrow> bool" where
  "genuine_faults rem key \<longleftrightarrow>
     (case head_fault rem key of None \<Rightarrow> True | Some e \<Rightarrow> error_name e \<noteq> ''NotFound'')"

subsection \<open>Example inputs\<close>

text \<open>
  A small machine and store on which the theorems below are exercised: every file reads
  as the same six bytes, the digest is a stand-in for MD5 (a prefix and the bytes less
  their double quotes), no request fails, and the store tags an upload with a quoted text
  that, without the quotes, is the digest of its body.
\<close>

definition example_host :: host where
  "example_host =
     \<lparr> readFile = (\<lambda>p. Inr ''<svg/>''),
       statSync = (\<lambda>p. Inr 6),
       md5 = (\<lambda>buf. ''0f'' @ filter (\<lambda>c. c \<noteq> CHR 0x22) buf) \<rparr>"

definition quoted :: "string \<Rightarrow> string" where
  "quoted s = [CHR 0x22] @ s @ [CHR 0x22]"

definition example_remote :: remote where
  "example_remote =
     \<lparr> head_fault = (\<lambda>key. None),
       put_fault = (\<lambda>key. None),
       etag_of = (\<lambda>body. Some (quoted (''0f'' @ body))) \<rparr>"

text \<open>A store that refuses every lookup.\<close>

definition denied_remote :: remote where
  "denied_remote =
     \<lparr> head_fault = (\<lambda>key. Some (Error ''AccessDenied'' ''Access Denied'')),
       put_fault = (\<lambda>key. None),
       etag_of = (\<lambda>body. None) \<rparr>"

text \<open>
  Buckets holding one object under the key of \<open>a.svg\<close>: tagged with the quoted digest
  of the example file, and answered without any tag.
\<close>

definition synced_bucket :: bucket where
  "synced_bucket =
     [''football_logos/a.svg'' \<mapsto>
        \<lparr> ETag = Some (quoted ''0f<svg/>''), ContentType = ''image/svg+xml'' \<rparr>]"

definition tagless_bucket :: bucket where
  "tagless_bucket =
     [''football_logos/a.svg'' \<mapsto> \<lparr> ETag = None, ContentType = ''image/svg+xml'' \<rparr>]"

definition example_tree :: listing where
  "example_tree =
     Entries [(''a.svg'', NonDirectory),
              (''england'', Directory (Entries [(''b.png'', NonDirectory),
                                                (''notes.txt'', NonDirectory)]))]"

definition example_env :: environment where
  "example_env =
     \<lparr> CLOUDFLARE_ACCOUNT_ID = Some ''acct'',
       R2_ACCESS_KEY_ID = None,
       R2_SECRET_ACCESS_KEY = Some '''',
       R2_BUCKET_NAME = None,
       R2_PUBLIC_URL = None \<rparr>"

definition bucketless_env :: environment where
  "bucketless_env =
     \<lparr> CLOUDFLARE_ACCOUNT_ID = Some ''acct'',
       R2_ACCESS_KEY_ID = Some ''id'',
       R2_SECRET_ACCESS_KEY = Some ''secret'',
       R2_BUCKET_NAME = None,
       R2_PUBLIC_URL = None \<rparr>"

text \<open>A tree with a directory that cannot be read between two logo files.\<close>

definition locked_tree :: listing where
  "locked_tree =
     Entries [(''a.svg'', NonDirectory),
              (''private'', Directory (ReaddirThrows (Error ''Error'' ''EACCES: permission denied''))),
              (''b.png'', NonDirectory)]"

text \<open>A store on which the PUT of one key fails.\<close>

definition flaky_remote :: remote where
  "flaky_remote =
     \<lparr> head_fault = (\<lambda>key. None),
       put_fault = (\<lambda>key. if key = ''football_logos/england/b.png''
                           then Some (Error ''TimeoutError'' ''socket hang up'') else None),
       etag_of = (\<lambda>body. Some (quoted (''0f'' @ body))) \<rparr>"

definition three_files :: "string list" where
  "three_files = [''logos/a.svg'', ''logos/england/b.png'', ''logos/c.json'']"

definition three_tree :: listing where
  "three_tree =
     Entries [(''a.svg'', NonDirectory),
              (''england'', Directory (Entries [(''b.png'', NonDirectory)])),
              (''c.json'', NonDirectory)]"

text \<open>
  A machine on which one file, read for its digest, is gone by the time it is stat'ed.
\<close>

definition vanishing_host :: host where
  "vanishing_host =
     \<lparr> readFile = (\<lambda>p. Inr ''<svg/>''),
       statSync = (\<lambda>p. if p = ''logos/england/b.png''
                         then Inl (Error ''Error'' ''ENOENT: no such file or directory, stat'')
                         else Inr 6),
       md5 = (\<lambda>buf. ''0f'' @ filter (\<lambda>c. c \<noteq> CHR 0x22) buf) \<rparr>"

text \<open>A bucket whose object under the key of \<open>a.svg\<close> is answered with an empty tag.\<close>

definition empty_tag_bucket :: bucket where
  "empty_tag_bucket =
     [''football_logos/a.svg'' \<mapsto> \<lparr> ETag = Some (quoted []), ContentType = ''image/svg+xml'' \<rparr>]"

section \<open>Properties\<close>

subsection \<open>Suffixes and the scanner's file list\<close>

lemma endsWith_append:
  "length suf \<le> length v \<Longrightarrow> endsWith (xs @ v) suf = endsWith v suf"
  by (simp add: endsWith_def)

lemma endsWith_self: "endsWith (xs @ suf) suf"
  by (simp add: endsWith_def)

lemma endsWith_same_length: "length v = length suf \<Longrightarrow> endsWith v suf = (v = suf)"
  by (simp add: endsWith_def)

lemma getFiles_grows:
  "getFiles dir t fl = Inr out \<Longrightarrow> set fl \<subseteq> set out"
  "getFiles_loop dir es fl = Inr out \<Longrightarrow> set fl \<subseteq> set out"
  by (induction dir t fl and dir es fl arbitrary: out and out rule: getFiles_getFiles_loop.induct)
     (auto split: sum.splits if_splits)

lemma lower_svg: "map lower_char ''.svg'' = ''.svg''"
  by (simp add: lower_char_def)

lemma lower_png: "map lower_char ''.png'' = ''.png''"
  by (simp add: lower_char_def)

lemma lower_dot: "lower_char CHR ''.'' = CHR ''.''"
  by (simp add: lower_char_def)

text \<open>
  A name that folds to an allowlisted extension without being that extension in lower
  case ends with none of the three lower-case extensions.
\<close>

lemma variant_not_lower:
  assumes "ext \<in> {''.svg'', ''.png'', ''.json''}" "map lower_char v = ext" "v \<noteq> ext"
  shows "\<not> endsWith v ''.svg'' \<and> \<not> endsWith v ''.png'' \<and> \<not> endsWith v ''.json''"
proof -
  have len: "length v = length ext" using assms(2) by (metis length_map)
  consider "ext = ''.svg''" | "ext = ''.png''" | "ext = ''.json''" using assms(1) by auto
  then show ?thesis
  proof cases
    case 1
    then have "length v = 4" using len by simp
    then show ?thesis using 1 assms(2,3) lower_png
      by (auto simp: endsWith_same_length endsWith_def)
  next
    case 2
    then have "length v = 4" using len by simp
    then show ?thesis using 2 assms(2,3) lower_svg
      by (auto simp: endsWith_same_length endsWith_def)
  next
    case 3
    then have l5: "length v = 5" using len by simp
    then obtain c w where v: "v = c # w" "length w = 4" by (cases v) auto
    have w: "map lower_char w = ''json''" using 3 assms(2) v by simp
    have "w \<noteq> ''.svg''" "w \<noteq> ''.png''" using w lower_dot by auto
    then show ?thesis using 3 assms(3) l5 v
      by (auto simp: endsWith_same_length endsWith_def)
  qed
qed

lemma endsWith_iff: "endsWith s suf \<longleftrightarrow> (\<exists>pre. s = pre @ suf)"
proof
  assume a: "endsWith s suf"
  then have "s = take (length s - length suf) s @ suf"
    by (metis append_take_drop_id endsWith_def)
  then show "\<exists>pre. s = pre @ suf" ..
next
  assume "\<exists>pre. s = pre @ suf"
  then show "endsWith s suf" by (auto simp: endsWith_def)
qed

lemma endsWith_longer:
  assumes "endsWith (xs @ v) (c # suf)" "length v = length suf"
  shows "v = suf"
proof -
  obtain pre where "xs @ v = pre @ c # suf" using assms(1) endsWith_iff by blast
  then have "xs @ v = (pre @ [c]) @ suf" by simp
  then show ?thesis using assms(2) by (metis append_eq_append_conv)
qed

lemma lower_json4: "map lower_char ''json'' = ''json''"
  by (simp add: lower_char_def)

lemma variant_contentType:
  assumes "ext \<in> {''.svg'', ''.png'', ''.json''}" "map lower_char v = ext" "v \<noteq> ext"
  shows "contentType_of (join dir (stem @ v)) = ''application/octet-stream''"
proof -
  have len: "length v = length ext" using assms(2) by (metis length_map)
  then have l: "4 \<le> length v" using assms(1) by auto
  obtain p where j: "join dir (stem @ v) = p @ v"
    using append_assoc[of "dir @ ''/''" stem v] by (simp add: join_def)
  have v: "\<not> endsWith v ''.svg''" "\<not> endsWith v ''.png''" "\<not> endsWith v ''.json''"
    using variant_not_lower[OF assms] by simp_all
  have svg: "\<not> endsWith (join dir (stem @ v)) ''.svg''"
    unfolding j using v(1) l by (simp add: endsWith_append)
  have png: "\<not> endsWith (join dir (stem @ v)) ''.png''"
    unfolding j using v(2) l by (simp add: endsWith_append)
  have json: "\<not> endsWith (join dir (stem @ v)) ''.json''"
  proof (cases "length v = 4")
    case True
    show ?thesis
    proof
      assume "endsWith (join dir (stem @ v)) ''.json''"
      then have "v = ''json''" unfolding j using True endsWith_longer[of _ v _ "''json''"] by simp
      then have "ext = ''json''" using assms(2) lower_json4 by simp
      then show False using assms(1) by simp
    qed
  next
    case False
    then have "length v = 5" using len assms(1) by auto
    then show ?thesis unfolding j using v(3) by (simp add: endsWith_append)
  qed
  show ?thesis
    using svg png json by (simp add: contentType_of_def)
qed

lemma variant_match:
  assumes "ext \<in> {''.svg'', ''.png'', ''.json''}" "map lower_char v = ext"
  shows "match_ext (stem @ v)"
  using assms endsWith_self[of "map lower_char stem"]
  by (auto simp: match_ext_def Let_def)

lemma uploadFile_contentType:
  "uploadFile h rem st localPath r2Key = (st', Inr bytes) \<Longrightarrow>
   map_option ContentType (objects st' r2Key) = Some (contentType_of localPath)"
  by (auto simp: uploadFile_def send_put_def called_def Let_def split: sum.splits option.splits)

subsection \<open>Extension allowlist against content type\<close>

text \<open>
  C10. The allowlist is matched without regard to case, the content type with regard to
  it. A directory entry whose name ends in a variant \<open>v\<close> of \<open>.svg\<close>, \<open>.png\<close> or
  \<open>.json\<close> that is not all lower case (\<open>v\<close> folds to the extension and differs from
  it) passes the scanner's test and is in the list the scan returns; the uploader maps its
  path to \<open>application/octet-stream\<close>, and an upload that succeeds stores the object
  with that type.
\<close>

theorem case_variant_scanned_as_octet_stream:
  assumes "ext \<in> {''.svg'', ''.png'', ''.json''}" and "map lower_char v = ext" and "v \<noteq> ext"
  shows "match_ext (stem @ v) \<and>
         (\<forall>out. getFiles_loop dir ((stem @ v, NonDirectory) # files) fileList = Inr out \<longrightarrow>
                join dir (stem @ v) \<in> set out) \<and>
         contentType_of (join dir (stem @ v)) = ''application/octet-stream'' \<and>
         (\<forall>st' bytes. uploadFile h rem st (join dir (stem @ v)) r2Key = (st', Inr bytes) \<longrightarrow>
                map_option ContentType (objects st' r2Key) = Some ''application/octet-stream'')"
proof -
  have m: "match_ext (stem @ v)"
    using assms(1,2) by (rule variant_match)
  have ct: "contentType_of (join dir (stem @ v)) = ''application/octet-stream''"
    using assms by (rule variant_contentType)
  have scan: "join dir (stem @ v) \<in> set out"
    if "getFiles_loop dir ((stem @ v, NonDirectory) # files) fileList = Inr out" for out
  proof -
    from that m have "getFiles_loop dir files (fileList @ [join dir (stem @ v)]) = Inr out"
      by simp
    then have "set (fileList @ [join dir (stem @ v)]) \<subseteq> set out"
      by (rule getFiles_grows(2))
    then show ?thesis by simp
  qed
  have up: "map_option ContentType (objects st' r2Key) = Some ''application/octet-stream''"
    if "uploadFile h rem st (join dir (stem @ v)) r2Key = (st', Inr bytes)" for st' bytes
    using uploadFile_contentType[OF that] ct by simp
  show ?thesis
  proof (intro conjI allI impI)
    show "match_ext (stem @ v)" by (rule m)
    show "contentType_of (join dir (stem @ v)) = ''application/octet-stream''" by (rule ct)
    show "join dir (stem @ v) \<in> set out"
      if "getFiles_loop dir ((stem @ v, NonDirectory) # files) fileList = Inr out" for out
      using that by (rule scan)
    show "map_option ContentType (objects st' r2Key) = Some ''application/octet-stream''"
      if "uploadFile h rem st (join dir (stem @ v)) r2Key = (st', Inr bytes)" for st' bytes
      using that by (rule up)
  qed
qed


theorem case_variant_scanned_as_octet_stream_witness:
  "''.svg'' \<in> {''.svg'', ''.png'', ''.json''} \<and> map lower_char ''.SVG'' = ''.svg'' \<and>
   ''.SVG'' \<noteq> ''.svg'' \<and>
   match_ext ''Arsenal.SVG'' \<and>
   getFiles_loop ''logos'' [(''Arsenal.SVG'', NonDirectory)] [] = Inr [''logos/Arsenal.SVG''] \<and>
   ''logos/Arsenal.SVG'' \<in> set [''logos/Arsenal.SVG''] \<and>
   contentType_of ''logos/Arsenal.SVG'' = ''application/octet-stream'' \<and>
   snd (uploadFile example_host example_remote (init_state Map.empty)
          ''logos/Arsenal.SVG'' ''football_logos/Arsenal.SVG'') = Inr 6 \<and>
   map_option ContentType
     (objects (fst (uploadFile example_host example_remote (init_state Map.empty)
                      ''logos/Arsenal.SVG'' ''football_logos/Arsenal.SVG''))
        ''football_logos/Arsenal.SVG'') = Some ''application/octet-stream''"
proof -
  let ?u = "uploadFile example_host example_remote (init_state Map.empty)
              ''logos/Arsenal.SVG'' ''football_logos/Arsenal.SVG''"
  have h1: "''.svg'' \<in> {''.svg'', ''.png'', ''.json''}" by simp
  have h2: "map lower_char ''.SVG'' = ''.svg''" by code_simp
  have h3: "''.SVG'' \<noteq> ''.svg''" by simp
  have j: "join ''logos'' (''Arsenal'' @ ''.SVG'') = ''logos/Arsenal.SVG''" by code_simp
  have g: "getFiles_loop ''logos'' [(''Arsenal'' @ ''.SVG'', NonDirectory)] [] =
             Inr [''logos/Arsenal.SVG'']" by code_simp
  have s: "snd ?u = Inr 6" by code_simp
  then have u: "uploadFile example_host example_remote (init_state Map.empty)
                  (join ''logos'' (''Arsenal'' @ ''.SVG'')) ''football_logos/Arsenal.SVG'' =
                (fst ?u, Inr 6)"
    unfolding j by (metis prod.collapse)
  note t = case_variant_scanned_as_octet_stream
    [OF h1 h2 h3, of "''Arsenal''" "''logos''" "[]" "[]" example_host example_remote
        "init_state Map.empty" "''football_logos/Arsenal.SVG''"]
  have c: "map_option ContentType (objects (fst ?u) ''football_logos/Arsenal.SVG'') =
             Some ''application/octet-stream''"
    by (rule t[THEN conjunct2, THEN conjunct2, THEN conjunct2, rule_format, OF u])
  from t g j h1 h2 h3 s c show ?thesis by simp
qed

subsection \<open>Byte counts of a tebibyte and more\<close>

lemma floor_log_small: "n < k \<Longrightarrow> floor_log k n = 0"
  by (subst floor_log.simps) simp

lemma floor_log_step: "2 \<le> k \<Longrightarrow> k \<le> n \<Longrightarrow> floor_log k n = Suc (floor_log k (n div k))"
  by (subst floor_log.simps) simp

lemma show_nat_digit: "n < 10 \<Longrightarrow> show_nat n = [digit n]"
  by (subst show_nat.simps) simp

lemma show_nat_step: "10 \<le> n \<Longrightarrow> show_nat n = show_nat (n div 10) @ [digit (n mod 10)]"
  by (subst show_nat.simps) simp

lemmas formatBytes_eval =
  formatBytes_def show_hundredths_def round_hundredths_def sizes_at_def sizes_def digit_def
  Let_def floor_log_small floor_log_step show_nat_digit show_nat_step

lemma floor_log_bounds:
  "2 \<le> k \<Longrightarrow> 0 < n \<Longrightarrow> k ^ floor_log k n \<le> n \<and> n < k ^ Suc (floor_log k n)"
proof (induction k n rule: floor_log.induct)
  case (1 k n)
  show ?case
  proof (cases "n < k")
    case True
    with "1.prems" show ?thesis by (simp add: floor_log_small)
  next
    case False
    with "1.prems" have pos: "0 < n div k" by (simp add: div_greater_zero_iff)
    from False "1.prems" have step: "floor_log k n = Suc (floor_log k (n div k))"
      by (simp add: floor_log_step)
    from "1.IH"[OF _ "1.prems"(1) pos] False "1.prems"
    have ih: "k ^ floor_log k (n div k) \<le> n div k" "n div k < k ^ Suc (floor_log k (n div k))"
      by simp_all
    from ih(1) have "k * k ^ floor_log k (n div k) \<le> k * (n div k)" by simp
    also have "\<dots> \<le> n" by simp
    finally have lo: "k ^ floor_log k n \<le> n" by (simp add: step)
    from ih(2) have "n div k < k ^ floor_log k n" by (simp add: step)
    then have "n < k ^ floor_log k n * k"
      using "1.prems"(1) by (simp add: div_less_iff_less_mult)
    then have hi: "n < k ^ Suc (floor_log k n)" by (simp add: mult.commute)
    from lo hi show ?thesis by simp
  qed
qed

lemma round_hundredths_nearest:
  assumes "0 < d"
  shows "2 * d * round_hundredths n d \<le> 2 * (n * 100) + d \<and>
         2 * (n * 100) + d < 2 * d * (round_hundredths n d + 1)"
proof -
  let ?x = "2 * (n * 100) + d"
  have "2 * d * (?x div (2 * d)) \<le> ?x" by simp
  moreover have "?x < 2 * d * (?x div (2 * d) + 1)"
    using assms dividend_less_times_div[of "2 * d" ?x] by (simp add: algebra_simps)
  ultimately show ?thesis by (simp add: round_hundredths_def)
qed

text \<open>
  Below \<open>1024 ^ 4\<close> bytes the index stays inside the table: a positive total \<open>n\<close> is
  printed as the hundredths nearest to \<open>n / 1024 ^ i\<close> (a half rounding up) followed by
  the \<open>i\<close>-th unit, where \<open>1024 ^ i \<le> n < 1024 ^ (i + 1)\<close>.
\<close>

lemma formatBytes_below_tebibyte:
  assumes "0 < n" "n < 1024 ^ 4"
  defines "i \<equiv> floor_log 1024 n"
  shows "i < 4 \<and> 1024 ^ i \<le> n \<and> n < 1024 ^ Suc i \<and>
         formatBytes n = show_hundredths (round_hundredths n (1024 ^ i)) @ '' '' @ sizes ! i \<and>
         sizes ! i \<in> set sizes"
proof -
  have b: "1024 ^ i \<le> n" "n < 1024 ^ Suc i"
    using floor_log_bounds[of 1024 n] assms(1) by (simp_all add: i_def)
  from b(1) assms(2) have "(1024::nat) ^ i < 1024 ^ 4" by simp
  then have i4: "i < 4" by (rule power_less_imp_less_exp[rotated]) simp
  then have "sizes_at i = sizes ! i" "sizes ! i \<in> set sizes"
    by (simp_all add: sizes_at_def sizes_def nth_mem del: set_simps)
  with b i4 assms(1) show ?thesis
    by (simp add: formatBytes_def Let_def i_def)
qed

text \<open>
  C8. The unit is read from a table of four names at the index \<open>floor_log 1024 bytes\<close>.
  For a total of \<open>1024 ^ 4\<close> bytes the index is 4, outside the table, and the text
  printed is \<open>1 undefined\<close>: no unit among Bytes, KB, MB and GB.
\<close>

theorem formatBytes_tebibyte:
  "formatBytes (1024 ^ 4) = ''1 undefined'' \<and>
   floor_log 1024 (1024 ^ 4) = 4 \<and>
   sizes_at (floor_log 1024 (1024 ^ 4)) \<notin> set sizes"
proof -
  have a: "formatBytes (1024 ^ 4) = ''1 undefined''" by (simp add: formatBytes_eval)
  have b: "floor_log 1024 (1024 ^ 4) = 4" by (simp add: formatBytes_eval)
  have c: "sizes_at 4 \<notin> set sizes" by (simp add: formatBytes_eval)
  from a b c show ?thesis by simp
qed

subsection \<open>One loop iteration\<close>

lemmas step_defs =
  process_file_def try_block_def uploadFile_def record_error_def called_def Let_def

lemma process_file_counts:
  "uploaded (process_file h rem logosDir st p) + skipped (process_file h rem logosDir st p) +
     length (errors (process_file h rem logosDir st p)) =
   uploaded st + skipped st + length (errors st) + 1"
  by (auto simp: step_defs split: sum.splits option.splits prod.splits if_splits)

lemma process_file_one_category:
  "(let s' = process_file h rem logosDir s p
    in (uploaded s' = uploaded s + 1 \<and> skipped s' = skipped s \<and> errors s' = errors s) \<or>
       (uploaded s' = uploaded s \<and> skipped s' = skipped s + 1 \<and> errors s' = errors s) \<or>
       (uploaded s' = uploaded s \<and> skipped s' = skipped s \<and>
          (\<exists>msg. errors s' = errors s @ [(relative logosDir p, msg)])))"
  by (auto simp: step_defs split: sum.splits option.splits prod.splits if_splits)

text \<open>The read that is pending when the process dies changes nothing but the calls.\<close>

lemma pending_read [simp]:
  "uploaded (case ps of [] \<Rightarrow> s | nextPath # later \<Rightarrow> called (ReadFile nextPath) s) = uploaded s"
  "skipped (case ps of [] \<Rightarrow> s | nextPath # later \<Rightarrow> called (ReadFile nextPath) s) = skipped s"
  "totalBytes (case ps of [] \<Rightarrow> s | nextPath # later \<Rightarrow> called (ReadFile nextPath) s) =
     totalBytes s"
  "errors (case ps of [] \<Rightarrow> s | nextPath # later \<Rightarrow> called (ReadFile nextPath) s) = errors s"
  "objects (case ps of [] \<Rightarrow> s | nextPath # later \<Rightarrow> called (ReadFile nextPath) s) = objects s"
  "console (case ps of [] \<Rightarrow> s | nextPath # later \<Rightarrow> called (ReadFile nextPath) s) = console s"
  "died (case ps of [] \<Rightarrow> s | nextPath # later \<Rightarrow> called (ReadFile nextPath) s) = died s"
  by (cases ps; simp add: called_def)+

lemma pending_read_same_counts [simp]:
  "same_counts (case ps of [] \<Rightarrow> s | nextPath # later \<Rightarrow> called (ReadFile nextPath) s)
               (case ps of [] \<Rightarrow> t | nextPath # later \<Rightarrow> called (ReadFile nextPath) t) =
   same_counts s t"
  by (simp add: same_counts_def)

text \<open>A loop that ends alive has handled every file.\<close>

lemma sync_loop_counts:
  "\<not> died (sync_loop h rem logosDir st ps) \<Longrightarrow>
   uploaded (sync_loop h rem logosDir st ps) + skipped (sync_loop h rem logosDir st ps) +
     length (errors (sync_loop h rem logosDir st ps)) =
   uploaded st + skipped st + length (errors st) + length ps"
proof (induction ps arbitrary: st)
  case Nil
  then show ?case by simp
next
  case (Cons p ps)
  let ?st' = "process_file h rem logosDir st p"
  from Cons.prems have alive: "\<not> died ?st'"
    by (auto simp: Let_def split: if_splits)
  with Cons.prems have "\<not> died (sync_loop h rem logosDir ?st' ps)"
    by (simp add: Let_def)
  from Cons.IH[OF this] alive process_file_counts[of h rem logosDir st p]
  show ?case by (simp add: Let_def)
qed

lemma syncToR2_complete:
  "syncToR2 h rem b logosDir tree = SyncComplete st \<longleftrightarrow>
     (\<exists>localFiles. getFiles logosDir tree [] = Inr localFiles \<and>
        st = sync_loop h rem logosDir (init_state b) localFiles \<and> \<not> died st)"
  by (auto simp: syncToR2_def after_loop_def split: sum.splits)

lemma example_scan:
  "getFiles ''logos'' example_tree [] = Inr [''logos/a.svg'', ''logos/england/b.png'']"
  by code_simp

lemma example_alive:
  "\<not> died (sync_loop example_host example_remote ''logos'' (init_state Map.empty)
             [''logos/a.svg'', ''logos/england/b.png''])"
  by code_simp

lemma example_run:
  "syncToR2 example_host example_remote Map.empty ''logos'' example_tree =
     SyncComplete (sync_loop example_host example_remote ''logos'' (init_state Map.empty)
                     [''logos/a.svg'', ''logos/england/b.png''])"
  using example_alive by (simp add: syncToR2_complete example_scan)

subsection \<open>Every file in one outcome category\<close>



subsection \<open>Remote state resolver\<close>

lemmas example_defs =
  example_host_def example_remote_def quoted_def init_state_def key_of_def relative_def

lemma etag_result_Null:
  "etag_result r = Inr Null \<longleftrightarrow> (\<exists>e. r = Throws e \<and> error_name e = ''NotFound'')"
  by (cases r rule: etag_result.cases) auto

lemma strip_quotes_no_quote: "CHR 0x22 \<notin> set (strip_quotes t)"
  by (simp add: strip_quotes_def)

lemma process_file_lookup_error:
  assumes "getFileHash h localPath = Inr localHash"
    and "getR2FileETag rem (objects st) (key_of (relative logosDir localPath)) = Inl e"
  shows "process_file h rem logosDir st localPath =
           record_error (called (HeadObject (key_of (relative logosDir localPath)))
                          (called (ReadFile localPath) st))
             (relative logosDir localPath) e"
  using assms by (simp add: process_file_def try_block_def Let_def called_def)

lemma process_file_upload_reported:
  assumes "getFileHash h localPath = Inr localHash"
    and "getR2FileETag rem (objects st) (key_of (relative logosDir localPath)) = Inr r2Hash"
    and "r2Hash \<noteq> Str localHash"
    and "statSync h localPath = Inr n"
    and "put_fault rem (key_of (relative logosDir localPath)) = None"
  shows "errors (process_file h rem logosDir st localPath) = errors st \<and>
         uploaded (process_file h rem logosDir st localPath) = uploaded st + 1 \<and>
         totalBytes (process_file h rem logosDir st localPath) = totalBytes st + n \<and>
         console (process_file h rem logosDir st localPath) =
           console st @ [if truthy r2Hash then Updated (relative logosDir localPath)
                         else Uploaded (relative logosDir localPath)] \<and>
         ops (process_file h rem logosDir st localPath) =
           ops st @ [ReadFile localPath, HeadObject (key_of (relative logosDir localPath)),
                     StatSync localPath,
                     PutObject (key_of (relative logosDir localPath)) (contentType_of localPath)]"
  using assms
  by (auto simp: step_defs send_put_def getFileHash_def split: sum.splits)

text \<open>
  C3, as the code has it. The resolver returns \<^verbatim>\<open>null\<close> exactly when the HEAD request
  throws an error named \<open>NotFound\<close>. Any other error the request throws leaves the
  resolver as it is, and the loop records it for that file: the file and the message join
  the error list, no counter and no object changes, and nothing is sent after the HEAD.
  The tag of an object that is found comes back with every double quote removed. An
  answer that is malformed in that it carries no tag, or an empty one, is no error: the
  resolver returns \<^verbatim>\<open>undefined\<close>, or the empty string, and the loop goes on as it does
  for an absent object: it uploads the file and reports it as \<open>Uploaded\<close>, with no entry
  in the error list.
\<close>

theorem resolver_absent_only_when_not_found:
  "(getR2FileETag rem b key = Inr Null \<longleftrightarrow>
      (\<exists>e. send_head rem b key = Throws e \<and> error_name e = ''NotFound'')) \<and>
   (send_head rem b key = Throws e \<and> error_name e \<noteq> ''NotFound'' \<longrightarrow>
      getR2FileETag rem b key = Inl e) \<and>
   (send_head rem b key = Response (Some t) \<longrightarrow>
      getR2FileETag rem b key = Inr (Str (strip_quotes t)) \<and>
      strip_quotes t = filter (\<lambda>c. c \<noteq> CHR 0x22) t \<and> CHR 0x22 \<notin> set (strip_quotes t)) \<and>
   (send_head rem b key = Response None \<longrightarrow> getR2FileETag rem b key = Inr Undefined) \<and>
   (getFileHash h localPath = Inr localHash \<and>
    send_head rem (objects st) (key_of (relative logosDir localPath)) = Throws e \<and>
    error_name e \<noteq> ''NotFound'' \<longrightarrow>
      (let st' = process_file h rem logosDir st localPath
       in errors st' = errors st @ [(relative logosDir localPath, error_message e)] \<and>
          uploaded st' = uploaded st \<and> skipped st' = skipped st \<and>
          totalBytes st' = totalBytes st \<and> objects st' = objects st \<and>
          ops st' = ops st @ [ReadFile localPath,
                              HeadObject (key_of (relative logosDir localPath))])) \<and>
   (getFileHash h localPath = Inr localHash \<and> localHash \<noteq> [] \<and>
    send_head rem (objects st) (key_of (relative logosDir localPath)) = Response tag \<and>
    (tag = None \<or> (\<exists>t. tag = Some t \<and> strip_quotes t = [])) \<and>
    statSync h localPath = Inr n \<and>
    put_fault rem (key_of (relative logosDir localPath)) = None \<longrightarrow>
      (let st' = process_file h rem logosDir st localPath
       in errors st' = errors st \<and> uploaded st' = uploaded st + 1 \<and>
          console st' = console st @ [Uploaded (relative logosDir localPath)] \<and>
          ops st' = ops st @ [ReadFile localPath,
                              HeadObject (key_of (relative logosDir localPath)),
                              StatSync localPath,
                              PutObject (key_of (relative logosDir localPath))
                                (contentType_of localPath)]))"
proof (intro conjI impI)
  show "getR2FileETag rem b key = Inr Null \<longleftrightarrow>
      (\<exists>e. send_head rem b key = Throws e \<and> error_name e = ''NotFound'')"
    by (simp add: getR2FileETag_def etag_result_Null)
  show "getR2FileETag rem b key = Inl e"
    if "send_head rem b key = Throws e \<and> error_name e \<noteq> ''NotFound''"
    using that by (simp add: getR2FileETag_def)
  show "getR2FileETag rem b key = Inr (Str (strip_quotes t))"
    if "send_head rem b key = Response (Some t)"
    using that by (simp add: getR2FileETag_def)
  show "getR2FileETag rem b key = Inr Undefined"
    if "send_head rem b key = Response None"
    using that by (simp add: getR2FileETag_def)
  show "strip_quotes t = filter (\<lambda>c. c \<noteq> CHR 0x22) t"
    by (simp add: strip_quotes_def)
  show "CHR 0x22 \<notin> set (strip_quotes t)"
    by (rule strip_quotes_no_quote)
  show "let st' = process_file h rem logosDir st localPath
       in errors st' = errors st @ [(relative logosDir localPath, error_message e)] \<and>
          uploaded st' = uploaded st \<and> skipped st' = skipped st \<and>
          totalBytes st' = totalBytes st \<and> objects st' = objects st \<and>
          ops st' = ops st @ [ReadFile localPath,
                              HeadObject (key_of (relative logosDir localPath))]"
    if a: "getFileHash h localPath = Inr localHash \<and>
      send_head rem (objects st) (key_of (relative logosDir localPath)) = Throws e \<and>
      error_name e \<noteq> ''NotFound''"
  proof -
    from a have "getR2FileETag rem (objects st)
        (key_of (relative logosDir localPath)) = Inl e"
      by (simp add: getR2FileETag_def)
    with a show ?thesis
      using process_file_lookup_error[of h localPath localHash rem st logosDir e]
      by (simp add: record_error_def called_def Let_def)
  qed
  show "let st' = process_file h rem logosDir st localPath
       in errors st' = errors st \<and> uploaded st' = uploaded st + 1 \<and>
          console st' = console st @ [Uploaded (relative logosDir localPath)] \<and>
          ops st' = ops st @ [ReadFile localPath,
                              HeadObject (key_of (relative logosDir localPath)),
                              StatSync localPath,
                              PutObject (key_of (relative logosDir localPath))
                                (contentType_of localPath)]"
    if a: "getFileHash h localPath = Inr localHash \<and> localHash \<noteq> [] \<and>
      send_head rem (objects st) (key_of (relative logosDir localPath)) = Response tag \<and>
      (tag = None \<or> (\<exists>t. tag = Some t \<and> strip_quotes t = [])) \<and>
      statSync h localPath = Inr n \<and>
      put_fault rem (key_of (relative logosDir localPath)) = None"
  proof -
    from a obtain r2Hash where
      r: "getR2FileETag rem (objects st) (key_of (relative logosDir localPath)) = Inr r2Hash"
      and f: "\<not> truthy r2Hash" "r2Hash \<noteq> Str localHash"
      by (auto simp: getR2FileETag_def)
    from a have h: "getFileHash h localPath = Inr localHash" "statSync h localPath = Inr n"
      "put_fault rem (key_of (relative logosDir localPath)) = None"
      by simp_all
    from process_file_upload_reported[OF h(1) r f(2) h(2) h(3)] f(1)
    show ?thesis by (simp add: Let_def)
  qed
qed

theorem resolver_absent_only_when_not_found_witness:
  "send_head example_remote Map.empty ''football_logos/a.svg'' = Throws NotFound \<and>
   error_name NotFound = ''NotFound'' \<and>
   getR2FileETag example_remote Map.empty ''football_logos/a.svg'' = Inr Null \<and>
   send_head denied_remote Map.empty ''football_logos/a.svg'' =
     Throws (Error ''AccessDenied'' ''Access Denied'') \<and>
   error_name (Error ''AccessDenied'' ''Access Denied'') \<noteq> ''NotFound'' \<and>
   getR2FileETag denied_remote Map.empty ''football_logos/a.svg'' =
     Inl (Error ''AccessDenied'' ''Access Denied'') \<and>
   getFileHash example_host ''logos/a.svg'' = Inr ''0f<svg/>'' \<and>
   errors (process_file example_host denied_remote ''logos'' (init_state Map.empty) ''logos/a.svg'') =
     [(''a.svg'', ''Access Denied'')] \<and>
   uploaded (process_file example_host denied_remote ''logos'' (init_state Map.empty) ''logos/a.svg'') = 0 \<and>
   send_head example_remote synced_bucket ''football_logos/a.svg'' =
     Response (Some (quoted ''0f<svg/>'')) \<and>
   getR2FileETag example_remote synced_bucket ''football_logos/a.svg'' = Inr (Str ''0f<svg/>'') \<and>
   send_head example_remote tagless_bucket ''football_logos/a.svg'' = Response None \<and>
   getR2FileETag example_remote tagless_bucket ''football_logos/a.svg'' = Inr Undefined \<and>
   statSync example_host ''logos/a.svg'' = Inr 6 \<and>
   put_fault example_remote ''football_logos/a.svg'' = None \<and>
   errors (process_file example_host example_remote ''logos'' (init_state tagless_bucket)
             ''logos/a.svg'') = [] \<and>
   uploaded (process_file example_host example_remote ''logos'' (init_state tagless_bucket)
             ''logos/a.svg'') = 1 \<and>
   console (process_file example_host example_remote ''logos'' (init_state tagless_bucket)
             ''logos/a.svg'') = [Uploaded ''a.svg'']"
proof -
  let ?key = "''football_logos/a.svg''"
  let ?e = "Error ''AccessDenied'' ''Access Denied''"
  have nf: "send_head example_remote Map.empty ?key = Throws NotFound"
    by (simp add: send_head_def example_remote_def)
  have nfn: "error_name NotFound = ''NotFound''"
    by (simp add: NotFound_def)
  have dn: "send_head denied_remote Map.empty ?key = Throws ?e"
    by (simp add: send_head_def denied_remote_def)
  have dnn: "error_name ?e \<noteq> ''NotFound''"
    by simp
  have hash: "getFileHash example_host ''logos/a.svg'' = Inr ''0f<svg/>''"
    by (simp add: getFileHash_def example_host_def)
  have rel: "relative ''logos'' ''logos/a.svg'' = ''a.svg''"
    by (simp add: relative_def)
  have key: "key_of (relative ''logos'' ''logos/a.svg'') = ?key"
    by (simp add: relative_def key_of_def)
  have found: "send_head example_remote synced_bucket ?key = Response (Some (quoted ''0f<svg/>''))"
    by (simp add: send_head_def example_remote_def synced_bucket_def)
  have sq: "strip_quotes (quoted ''0f<svg/>'') = ''0f<svg/>''"
    by (simp add: strip_quotes_def quoted_def)
  have bare: "send_head example_remote tagless_bucket ?key = Response None"
    by (simp add: send_head_def example_remote_def tagless_bucket_def)
  have stat: "statSync example_host ''logos/a.svg'' = Inr 6"
    by (simp add: example_host_def)
  have pf: "put_fault example_remote k = None" for k
    by (simp add: example_remote_def)
  note t1 = resolver_absent_only_when_not_found
    [of example_remote Map.empty ?key, THEN conjunct1]
  have r1: "getR2FileETag example_remote Map.empty ?key = Inr Null"
    using t1 nf nfn by simp
  note t2 = resolver_absent_only_when_not_found
    [of denied_remote Map.empty ?key ?e _ example_host "''logos/a.svg''" "''0f<svg/>''"
        "init_state Map.empty" "''logos''", THEN conjunct2]
  have r2: "getR2FileETag denied_remote Map.empty ?key = Inl ?e"
    using t2[THEN conjunct1] dn dnn by simp
  have dn': "send_head denied_remote (objects (init_state Map.empty))
               (key_of (relative ''logos'' ''logos/a.svg'')) = Throws ?e"
    using dn by (simp add: key init_state_def)
  have r3: "errors (process_file example_host denied_remote ''logos'' (init_state Map.empty)
                      ''logos/a.svg'') = [(''a.svg'', ''Access Denied'')] \<and>
            uploaded (process_file example_host denied_remote ''logos'' (init_state Map.empty)
                      ''logos/a.svg'') = 0"
    using t2[THEN conjunct2, THEN conjunct2, THEN conjunct2, THEN conjunct1] hash dn' dnn
    by (simp add: Let_def rel init_state_def)
  note t3 = resolver_absent_only_when_not_found
    [of example_remote synced_bucket ?key _ "quoted ''0f<svg/>''",
     THEN conjunct2, THEN conjunct2, THEN conjunct1]
  have r4: "getR2FileETag example_remote synced_bucket ?key = Inr (Str ''0f<svg/>'')"
    using t3 found sq by simp
  note t4 = resolver_absent_only_when_not_found
    [of example_remote tagless_bucket ?key,
     THEN conjunct2, THEN conjunct2, THEN conjunct2, THEN conjunct1]
  have r5: "getR2FileETag example_remote tagless_bucket ?key = Inr Undefined"
    using t4 bare by simp
  note t5 = resolver_absent_only_when_not_found
    [of example_remote tagless_bucket ?key _ _ example_host "''logos/a.svg''" "''0f<svg/>''"
        "init_state tagless_bucket" "''logos''" None 6,
     THEN conjunct2, THEN conjunct2, THEN conjunct2, THEN conjunct2, THEN conjunct2]
  have bare': "send_head example_remote (objects (init_state tagless_bucket))
                 (key_of (relative ''logos'' ''logos/a.svg'')) = Response None"
    using bare by (simp add: key init_state_def)
  have r6: "errors (process_file example_host example_remote ''logos'' (init_state tagless_bucket)
                      ''logos/a.svg'') = [] \<and>
            uploaded (process_file example_host example_remote ''logos'' (init_state tagless_bucket)
                      ''logos/a.svg'') = 1 \<and>
            console (process_file example_host example_remote ''logos'' (init_state tagless_bucket)
                      ''logos/a.svg'') = [Uploaded ''a.svg'']"
    using t5 hash bare' stat pf
    by (simp add: Let_def rel key init_state_def)
  from nf nfn r1 dn dnn r2 hash r3 found r4 bare r5 stat pf r6 show ?thesis by simp
qed

text \<open>
  C3 as stated fails for a malformed answer: a HEAD answer without a tag, or with an
  empty one, does not become a per-file error. The resolver returns \<^verbatim>\<open>undefined\<close> or
  the empty string, and the file is uploaded and reported as \<open>Uploaded\<close>, exactly as for an
  object that is not there.
\<close>

theorem malformed_answer_is_no_error:
  "send_head example_remote tagless_bucket ''football_logos/a.svg'' = Response None \<and>
   getR2FileETag example_remote tagless_bucket ''football_logos/a.svg'' = Inr Undefined \<and>
   errors (process_file example_host example_remote ''logos'' (init_state tagless_bucket)
             ''logos/a.svg'') = [] \<and>
   console (process_file example_host example_remote ''logos'' (init_state tagless_bucket)
             ''logos/a.svg'') = [Uploaded ''a.svg''] \<and>
   send_head example_remote empty_tag_bucket ''football_logos/a.svg'' =
     Response (Some (quoted [])) \<and>
   getR2FileETag example_remote empty_tag_bucket ''football_logos/a.svg'' = Inr (Str []) \<and>
   errors (process_file example_host example_remote ''logos'' (init_state empty_tag_bucket)
             ''logos/a.svg'') = [] \<and>
   console (process_file example_host example_remote ''logos'' (init_state empty_tag_bucket)
             ''logos/a.svg'') = [Uploaded ''a.svg''] \<and>
   console (process_file example_host example_remote ''logos'' (init_state Map.empty)
             ''logos/a.svg'') = [Uploaded ''a.svg'']"
  by (simp add: getFileHash_def getR2FileETag_def send_head_def NotFound_def step_defs
        send_put_def contentType_of_def endsWith_def strip_quotes_def tagless_bucket_def
        empty_tag_bucket_def example_defs)

subsection \<open>Sync decision engine\<close>

lemma decision_Unchanged: "decision r l = Unchanged \<longleftrightarrow> r = Str l"
  by (simp add: decision_def)

lemma decision_New:
  "decision r l = New \<longleftrightarrow> r \<noteq> Str l \<and> (r = Null \<or> r = Undefined \<or> r = Str [])"
  by (cases r) (auto simp: decision_def)

lemma decision_Modified:
  "decision r l = Modified \<longleftrightarrow> (\<exists>t. r = Str t \<and> t \<noteq> [] \<and> t \<noteq> l)"
  by (cases r) (auto simp: decision_def)

lemma process_file_decided:
  assumes "getFileHash h localPath = Inr localHash"
    and "getR2FileETag rem (objects st) (key_of (relative logosDir localPath)) = Inr r2Hash"
  shows "process_file h rem logosDir st localPath =
     (let relativePath = relative logosDir localPath;
          r2Key = key_of relativePath;
          st2 = called (HeadObject r2Key) (called (ReadFile localPath) st)
      in if decision r2Hash localHash = Unchanged
         then st2\<lparr> skipped := skipped st2 + 1, console := console st2 @ [Skip relativePath] \<rparr>
         else (case uploadFile h rem st2 localPath r2Key of
                 (st3, Inl error) \<Rightarrow> record_error st3 relativePath error
               | (st3, Inr bytes) \<Rightarrow>
                   st3\<lparr> totalBytes := totalBytes st3 + bytes,
                         uploaded := uploaded st3 + 1,
                         console := console st3 @
                           [if decision r2Hash localHash = Modified then Updated relativePath
                            else Uploaded relativePath] \<rparr>))"
  using assms
  by (auto simp: process_file_def try_block_def called_def Let_def decision_def
           split: sum.splits prod.splits)


lemma absent_resolves_Null:
  "head_fault rem key = None \<Longrightarrow> b key = None \<Longrightarrow> getR2FileETag rem b key = Inr Null"
  by (simp add: getR2FileETag_def send_head_def NotFound_def)


text \<open>
  C1, as the code has it. For a file whose digest and lookup succeed, the decision is a
  function of the local digest and of the value the resolver returned. It is Unchanged
  exactly when that value is the local digest; then only the read and the HEAD happen, the
  bucket is left alone and the file is counted as skipped. It is New exactly when the
  values differ and the resolver returned \<^verbatim>\<open>null\<close> (no object), \<^verbatim>\<open>undefined\<close>
  (an object without a tag) or the empty string; it is Modified otherwise. An absent
  object is always New. In the New and Modified cases \<^verbatim>\<open>uploadFile\<close> is called: the
  file is stat'ed; when that succeeds the PUT is sent; when the PUT succeeds the file is
  counted as uploaded with the size \<^verbatim>\<open>statSync\<close> gave.
\<close>

theorem sync_decision_by_digests:
  assumes "getFileHash h localPath = Inr localHash"
    and "r2Key = key_of (relative logosDir localPath)"
    and "getR2FileETag rem (objects st) r2Key = Inr r2Hash"
    and "st' = process_file h rem logosDir st localPath"
  shows "(decision r2Hash localHash = Unchanged \<longleftrightarrow> r2Hash = Str localHash) \<and>
         (decision r2Hash localHash = New \<longleftrightarrow>
            r2Hash \<noteq> Str localHash \<and> (r2Hash = Null \<or> r2Hash = Undefined \<or> r2Hash = Str [])) \<and>
         (decision r2Hash localHash = Modified \<longleftrightarrow>
            (\<exists>t. r2Hash = Str t \<and> t \<noteq> [] \<and> t \<noteq> localHash)) \<and>
         (head_fault rem r2Key = None \<and> objects st r2Key = None \<longrightarrow>
            decision r2Hash localHash = New) \<and>
         (decision r2Hash localHash = Unchanged \<longrightarrow>
            ops st' = ops st @ [ReadFile localPath, HeadObject r2Key] \<and>
            objects st' = objects st \<and> totalBytes st' = totalBytes st \<and>
            uploaded st' = uploaded st \<and> skipped st' = skipped st + 1 \<and>
            errors st' = errors st \<and>
            console st' = console st @ [Skip (relative logosDir localPath)]) \<and>
         (decision r2Hash localHash \<noteq> Unchanged \<longrightarrow>
            take (length (ops st) + 3) (ops st') =
              ops st @ [ReadFile localPath, HeadObject r2Key, StatSync localPath] \<and>
            skipped st' = skipped st \<and>
            (\<forall>n. statSync h localPath = Inr n \<longrightarrow>
               ops st' = ops st @ [ReadFile localPath, HeadObject r2Key, StatSync localPath,
                                   PutObject r2Key (contentType_of localPath)] \<and>
               (put_fault rem r2Key = None \<longrightarrow>
                  uploaded st' = uploaded st + 1 \<and> totalBytes st' = totalBytes st + n \<and>
                  errors st' = errors st \<and>
                  map_option ContentType (objects st' r2Key) = Some (contentType_of localPath) \<and>
                  console st' = console st @
                    [if decision r2Hash localHash = Modified
                     then Updated (relative logosDir localPath)
                     else Uploaded (relative logosDir localPath)])))"
proof (intro conjI)
  have pf: "st' =
     (if decision r2Hash localHash = Unchanged
      then (called (HeadObject r2Key) (called (ReadFile localPath) st))
             \<lparr> skipped := skipped st + 1,
               console := console st @ [Skip (relative logosDir localPath)] \<rparr>
      else (case uploadFile h rem (called (HeadObject r2Key) (called (ReadFile localPath) st))
                   localPath r2Key of
              (st3, Inl error) \<Rightarrow> record_error st3 (relative logosDir localPath) error
            | (st3, Inr bytes) \<Rightarrow>
                st3\<lparr> totalBytes := totalBytes st3 + bytes,
                      uploaded := uploaded st3 + 1,
                      console := console st3 @
                        [if decision r2Hash localHash = Modified
                         then Updated (relative logosDir localPath)
                         else Uploaded (relative logosDir localPath)] \<rparr>))"
    using process_file_decided[OF assms(1) assms(3)[unfolded assms(2)]] assms(2,4)
    by (simp add: Let_def called_def)
  show "decision r2Hash localHash = Unchanged \<longleftrightarrow> r2Hash = Str localHash"
    by (rule decision_Unchanged)
  show "decision r2Hash localHash = New \<longleftrightarrow>
            r2Hash \<noteq> Str localHash \<and> (r2Hash = Null \<or> r2Hash = Undefined \<or> r2Hash = Str [])"
    by (rule decision_New)
  show "decision r2Hash localHash = Modified \<longleftrightarrow>
            (\<exists>t. r2Hash = Str t \<and> t \<noteq> [] \<and> t \<noteq> localHash)"
    by (rule decision_Modified)
  show "head_fault rem r2Key = None \<and> objects st r2Key = None \<longrightarrow>
            decision r2Hash localHash = New"
    using assms(3) absent_resolves_Null[of rem r2Key "objects st"]
    by (auto simp: decision_def)
  show "decision r2Hash localHash = Unchanged \<longrightarrow>
            ops st' = ops st @ [ReadFile localPath, HeadObject r2Key] \<and>
            objects st' = objects st \<and> totalBytes st' = totalBytes st \<and>
            uploaded st' = uploaded st \<and> skipped st' = skipped st + 1 \<and>
            errors st' = errors st \<and>
            console st' = console st @ [Skip (relative logosDir localPath)]"
    using pf by (simp add: Let_def called_def)
  show "decision r2Hash localHash \<noteq> Unchanged \<longrightarrow>
            take (length (ops st) + 3) (ops st') =
              ops st @ [ReadFile localPath, HeadObject r2Key, StatSync localPath] \<and>
            skipped st' = skipped st \<and>
            (\<forall>n. statSync h localPath = Inr n \<longrightarrow>
               ops st' = ops st @ [ReadFile localPath, HeadObject r2Key, StatSync localPath,
                                   PutObject r2Key (contentType_of localPath)] \<and>
               (put_fault rem r2Key = None \<longrightarrow>
                  uploaded st' = uploaded st + 1 \<and> totalBytes st' = totalBytes st + n \<and>
                  errors st' = errors st \<and>
                  map_option ContentType (objects st' r2Key) = Some (contentType_of localPath) \<and>
                  console st' = console st @
                    [if decision r2Hash localHash = Modified
                     then Updated (relative logosDir localPath)
                     else Uploaded (relative logosDir localPath)]))"
    using pf assms(1)
    by (auto simp: Let_def called_def uploadFile_def send_put_def record_error_def getFileHash_def
             split: sum.splits option.splits)
qed


theorem sync_decision_by_digests_witness:
  "getFileHash example_host ''logos/a.svg'' = Inr ''0f<svg/>'' \<and>
   getR2FileETag example_remote (objects (init_state synced_bucket)) ''football_logos/a.svg'' =
     Inr (Str ''0f<svg/>'') \<and>
   decision (Str ''0f<svg/>'') ''0f<svg/>'' = Unchanged \<and>
   ops (process_file example_host example_remote ''logos'' (init_state synced_bucket) ''logos/a.svg'') =
     [ReadFile ''logos/a.svg'', HeadObject ''football_logos/a.svg''] \<and>
   skipped (process_file example_host example_remote ''logos'' (init_state synced_bucket) ''logos/a.svg'') = 1 \<and>
   getR2FileETag example_remote (objects (init_state Map.empty)) ''football_logos/a.svg'' = Inr Null \<and>
   head_fault example_remote ''football_logos/a.svg'' = None \<and>
   objects (init_state Map.empty) ''football_logos/a.svg'' = None \<and>
   decision Null ''0f<svg/>'' = New \<and>
   statSync example_host ''logos/a.svg'' = Inr 6 \<and>
   put_fault example_remote ''football_logos/a.svg'' = None \<and>
   ops (process_file example_host example_remote ''logos'' (init_state Map.empty) ''logos/a.svg'') =
     [ReadFile ''logos/a.svg'', HeadObject ''football_logos/a.svg'', StatSync ''logos/a.svg'',
      PutObject ''football_logos/a.svg'' ''image/svg+xml''] \<and>
   uploaded (process_file example_host example_remote ''logos'' (init_state Map.empty) ''logos/a.svg'') = 1 \<and>
   totalBytes (process_file example_host example_remote ''logos'' (init_state Map.empty) ''logos/a.svg'') = 6 \<and>
   console (process_file example_host example_remote ''logos'' (init_state Map.empty) ''logos/a.svg'') =
     [Uploaded ''a.svg'']"
proof -
  let ?p = "''logos/a.svg''" and ?k = "''football_logos/a.svg''" and ?l = "''0f<svg/>''"
  have hash: "getFileHash example_host ?p = Inr ?l"
    by (simp add: getFileHash_def example_defs)
  have key: "?k = key_of (relative ''logos'' ?p)"
    by (simp add: example_defs)
  have rel: "relative ''logos'' ?p = ''a.svg''"
    by (simp add: example_defs)
  have ct: "contentType_of ?p = ''image/svg+xml''"
    by (simp add: contentType_of_def endsWith_def)
  have look1: "getR2FileETag example_remote (objects (init_state synced_bucket)) ?k = Inr (Str ?l)"
    by (simp add: getR2FileETag_def send_head_def strip_quotes_def synced_bucket_def
          example_defs)
  have look2: "getR2FileETag example_remote (objects (init_state Map.empty)) ?k = Inr Null"
    by (simp add: getR2FileETag_def send_head_def NotFound_def example_defs)
  have d1: "decision (Str ?l) ?l = Unchanged" by (simp add: decision_def)
  have hf: "head_fault example_remote ?k = None" "put_fault example_remote ?k = None"
    by (simp_all add: example_defs)
  have ob: "objects (init_state Map.empty) ?k = None" by (simp add: example_defs)
  have stat: "statSync example_host ?p = Inr 6" by (simp add: example_defs)
  note t1 = sync_decision_by_digests[OF hash key look1 refl]
  note t2 = sync_decision_by_digests[OF hash key look2 refl]
  have c1: "ops (process_file example_host example_remote ''logos'' (init_state synced_bucket) ?p) =
              [ReadFile ?p, HeadObject ?k] \<and>
            skipped (process_file example_host example_remote ''logos'' (init_state synced_bucket) ?p) = 1"
    using t1 d1 by (simp add: init_state_def)
  have d2: "decision Null ?l = New"
    using t2 hf ob by blast
  have c2: "ops (process_file example_host example_remote ''logos'' (init_state Map.empty) ?p) =
              [ReadFile ?p, HeadObject ?k, StatSync ?p, PutObject ?k ''image/svg+xml''] \<and>
            uploaded (process_file example_host example_remote ''logos'' (init_state Map.empty) ?p) = 1 \<and>
            totalBytes (process_file example_host example_remote ''logos'' (init_state Map.empty) ?p) = 6 \<and>
            console (process_file example_host example_remote ''logos'' (init_state Map.empty) ?p) =
              [Uploaded ''a.svg'']"
    using t2 d2 stat hf(2) by (simp add: init_state_def ct rel)
  from hash look1 d1 c1 look2 hf ob d2 stat c2 show ?thesis by simp
qed

text \<open>
  C1 as stated fails: an object that exists, answered without a tag, is classified New
  (the console says \<open>Uploaded\<close>), although the remote state is not absent.
\<close>

theorem tagless_object_classified_New:
  "tagless_bucket ''football_logos/a.svg'' \<noteq> None \<and>
   head_fault example_remote ''football_logos/a.svg'' = None \<and>
   send_head example_remote tagless_bucket ''football_logos/a.svg'' = Response None \<and>
   getFileHash example_host ''logos/a.svg'' = Inr ''0f<svg/>'' \<and>
   getR2FileETag example_remote tagless_bucket ''football_logos/a.svg'' = Inr Undefined \<and>
   decision Undefined ''0f<svg/>'' = New \<and>
   console (process_file example_host example_remote ''logos'' (init_state tagless_bucket)
              ''logos/a.svg'') = [Uploaded ''a.svg'']"
  by (simp add: getFileHash_def getR2FileETag_def send_head_def decision_def step_defs
        send_put_def contentType_of_def endsWith_def tagless_bucket_def example_defs)

subsection \<open>Configuration check\<close>

lemma validateConfig_missing:
  "validateConfig c = (if missing_values c = [] then None else Some (missing_values c))"
  by (simp add: validateConfig_def missing_values_def required_def config_get_def envVar_def Let_def)

lemma bucketName_never_missing: "\<not> falsy (bucketName (config_of env))"
  by (cases "R2_BUCKET_NAME env") (auto simp: config_of_def or_default_def)

lemma missing_values_config_of: "missing_values (config_of env) = unset_credentials env"
  using bucketName_never_missing[of env]
  by (simp add: missing_values_def unset_credentials_def config_of_def)

text \<open>
  C6, as the code has it. When any of the three credential variables is unset or empty,
  the script ends in \<^verbatim>\<open>validateConfig\<close>: no file is read and no request is sent, the
  exit status is 1, and the names printed are exactly those of the unset or empty
  credential variables, each once, in the order of \<open>required\<close>. When none is, the sync
  runs, whatever \<open>R2_BUCKET_NAME\<close> is: an unset or empty bucket name is replaced by
  \<open>football-logos\<close> before the check. On a configuration object \<^verbatim>\<open>validateConfig\<close>
  reports exactly the missing values among its four required keys.
\<close>

theorem missing_credentials_abort:
  "(unset_credentials env \<noteq> [] \<longrightarrow>
      main env h rem b logosDir tree = ConfigExit (unset_credentials env) \<and>
      exit_status (main env h rem b logosDir tree) = 1 \<and>
      calls_made (main env h rem b logosDir tree) = []) \<and>
   (unset_credentials env = [] \<longrightarrow>
      main env h rem b logosDir tree = syncToR2 h rem b logosDir tree) \<and>
   set (unset_credentials env) =
     {var. (var = ''CLOUDFLARE_ACCOUNT_ID'' \<and> falsy (CLOUDFLARE_ACCOUNT_ID env)) \<or>
           (var = ''R2_ACCESS_KEY_ID'' \<and> falsy (R2_ACCESS_KEY_ID env)) \<or>
           (var = ''R2_SECRET_ACCESS_KEY'' \<and> falsy (R2_SECRET_ACCESS_KEY env))} \<and>
   distinct (unset_credentials env) \<and>
   validateConfig c = (if missing_values c = [] then None else Some (missing_values c))"
proof -
  have v: "validateConfig (config_of env) =
      (if unset_credentials env = [] then None else Some (unset_credentials env))"
    by (simp add: validateConfig_missing missing_values_config_of)
  have s: "set (unset_credentials env) =
     {var. (var = ''CLOUDFLARE_ACCOUNT_ID'' \<and> falsy (CLOUDFLARE_ACCOUNT_ID env)) \<or>
           (var = ''R2_ACCESS_KEY_ID'' \<and> falsy (R2_ACCESS_KEY_ID env)) \<or>
           (var = ''R2_SECRET_ACCESS_KEY'' \<and> falsy (R2_SECRET_ACCESS_KEY env))}"
    by (auto simp: unset_credentials_def)
  have d: "distinct (unset_credentials env)"
    by (simp add: unset_credentials_def)
  show ?thesis
    using v s d validateConfig_missing[of c] by (simp add: main_def)
qed


lemma example_env_unset:
  "unset_credentials example_env = [''R2_ACCESS_KEY_ID'', ''R2_SECRET_ACCESS_KEY'']"
  by (simp add: unset_credentials_def example_env_def)

lemma bucketless_env_unset: "unset_credentials bucketless_env = []"
  by (simp add: unset_credentials_def bucketless_env_def)

theorem missing_credentials_abort_witness:
  "unset_credentials example_env = [''R2_ACCESS_KEY_ID'', ''R2_SECRET_ACCESS_KEY''] \<and>
   main example_env example_host example_remote Map.empty ''logos'' example_tree =
     ConfigExit [''R2_ACCESS_KEY_ID'', ''R2_SECRET_ACCESS_KEY''] \<and>
   exit_status (main example_env example_host example_remote Map.empty ''logos'' example_tree) = 1 \<and>
   calls_made (main example_env example_host example_remote Map.empty ''logos'' example_tree) = [] \<and>
   unset_credentials bucketless_env = [] \<and>
   main bucketless_env example_host example_remote Map.empty ''logos'' example_tree =
     syncToR2 example_host example_remote Map.empty ''logos'' example_tree"
  using missing_credentials_abort
          [of example_env example_host example_remote Map.empty "''logos''" example_tree]
        missing_credentials_abort
          [of bucketless_env example_host example_remote Map.empty "''logos''" example_tree]
  by (simp add: example_env_unset bucketless_env_unset)

text \<open>
  C6 as stated fails for the fourth value: with the bucket name unset and the credentials
  set, nothing is reported, the run goes on and sends its requests.
\<close>

theorem unset_bucket_name_does_not_abort:
  "R2_BUCKET_NAME bucketless_env = None \<and>
   bucketName (config_of bucketless_env) = Some ''football-logos'' \<and>
   validateConfig (config_of bucketless_env) = None \<and>
   exit_status (main bucketless_env example_host example_remote Map.empty ''logos'' example_tree) = 0 \<and>
   filter network_call
     (calls_made (main bucketless_env example_host example_remote Map.empty ''logos'' example_tree)) =
     [HeadObject ''football_logos/a.svg'', PutObject ''football_logos/a.svg'' ''image/svg+xml'',
      HeadObject ''football_logos/england/b.png'',
      PutObject ''football_logos/england/b.png'' ''image/png'']"
proof -
  have a: "R2_BUCKET_NAME bucketless_env = None" by (simp add: bucketless_env_def)
  have b: "bucketName (config_of bucketless_env) = Some ''football-logos''"
    by (simp add: bucketless_env_def config_of_def or_default_def)
  have c: "validateConfig (config_of bucketless_env) = None" by code_simp
  have d: "exit_status (main bucketless_env example_host example_remote Map.empty ''logos''
             example_tree) = 0" by code_simp
  have e: "filter network_call
     (calls_made (main bucketless_env example_host example_remote Map.empty ''logos'' example_tree)) =
     [HeadObject ''football_logos/a.svg'', PutObject ''football_logos/a.svg'' ''image/svg+xml'',
      HeadObject ''football_logos/england/b.png'',
      PutObject ''football_logos/england/b.png'' ''image/png'']" by code_simp
  from a b c d e show ?thesis by simp
qed

subsection \<open>Scan errors\<close>

lemma getFiles_first_error:
  "case first_error t of Some e \<Rightarrow> getFiles dir t fl = Inl e
   | None \<Rightarrow> (\<exists>out. getFiles dir t fl = Inr out)"
  "case first_error_entries es of Some e \<Rightarrow> getFiles_loop dir es fl = Inl e
   | None \<Rightarrow> (\<exists>out. getFiles_loop dir es fl = Inr out)"
  by (induction dir t fl and dir es fl rule: getFiles_getFiles_loop.induct)
     (auto split: option.splits sum.splits)

text \<open>
  C5, as the code has it. \<^verbatim>\<open>getFiles\<close> catches nothing: when \<^verbatim>\<open>readdir\<close> throws
  for the root or for a directory the walk reaches, the whole scan ends with that error,
  the outer \<^verbatim>\<open>catch\<close> of \<^verbatim>\<open>syncToR2\<close> reports it, no file is processed and the
  exit status is 1. When no \<^verbatim>\<open>readdir\<close> throws, the scan returns a list and the loop
  runs over it (to its summary, unless the process dies of a stream error on the way). An
  entry that is not a directory (a symbolic link is none) is never walked into.
\<close>

theorem scan_error_aborts_run:
  "(first_error tree = Some e \<longrightarrow>
      getFiles logosDir tree [] = Inl e \<and>
      syncToR2 h rem b logosDir tree = SyncFailed (error_message e) \<and>
      exit_status (syncToR2 h rem b logosDir tree) = 1 \<and>
      calls_made (syncToR2 h rem b logosDir tree) = []) \<and>
   (first_error tree = None \<longrightarrow>
      (\<exists>localFiles. getFiles logosDir tree [] = Inr localFiles \<and>
         syncToR2 h rem b logosDir tree =
           (if died (sync_loop h rem logosDir (init_state b) localFiles)
            then StreamCrash (sync_loop h rem logosDir (init_state b) localFiles)
            else SyncComplete (sync_loop h rem logosDir (init_state b) localFiles))))"
  using getFiles_first_error(1)[where t = tree and dir = logosDir and fl = "[]"]
  by (auto simp: syncToR2_def after_loop_def split: option.splits)

theorem scan_error_aborts_run_witness:
  "first_error locked_tree = Some (Error ''Error'' ''EACCES: permission denied'') \<and>
   syncToR2 example_host example_remote Map.empty ''logos'' locked_tree =
     SyncFailed ''EACCES: permission denied'' \<and>
   first_error example_tree = None \<and>
   syncToR2 example_host example_remote Map.empty ''logos'' example_tree =
     SyncComplete (sync_loop example_host example_remote ''logos'' (init_state Map.empty)
                     [''logos/a.svg'', ''logos/england/b.png''])"
proof -
  have a: "first_error locked_tree = Some (Error ''Error'' ''EACCES: permission denied'')"
    by (simp add: locked_tree_def)
  have b: "first_error example_tree = None"
    by (simp add: example_tree_def)
  show ?thesis
    using scan_error_aborts_run[of locked_tree "Error ''Error'' ''EACCES: permission denied''"
            "''logos''" example_host example_remote Map.empty]
          scan_error_aborts_run[of example_tree _ "''logos''" example_host example_remote Map.empty]
          a b example_scan example_alive
    by simp
qed

text \<open>
  C5 as stated fails: one unreadable directory between two readable logo files ends the
  scan and the run; neither file is processed.
\<close>

theorem unreadable_subtree_aborts_run:
  "getFiles ''logos'' locked_tree [] = Inl (Error ''Error'' ''EACCES: permission denied'') \<and>
   syncToR2 example_host example_remote Map.empty ''logos'' locked_tree =
     SyncFailed ''EACCES: permission denied'' \<and>
   exit_status (syncToR2 example_host example_remote Map.empty ''logos'' locked_tree) = 1 \<and>
   calls_made (syncToR2 example_host example_remote Map.empty ''logos'' locked_tree) = []"
proof -
  have "getFiles ''logos'' locked_tree [] = Inl (Error ''Error'' ''EACCES: permission denied'')"
    by code_simp
  then show ?thesis by (simp add: syncToR2_def)
qed

subsection \<open>Failure isolation\<close>

lemma process_file_completes:
  assumes "snd (try_block h rem st p (relative logosDir p) (key_of (relative logosDir p))) = None"
  shows "errors (process_file h rem logosDir st p) = errors st \<and>
         uploaded (process_file h rem logosDir st p) + skipped (process_file h rem logosDir st p) =
           uploaded st + skipped st + 1 \<and>
         length (console (process_file h rem logosDir st p)) = length (console st) + 1 \<and>
         died (process_file h rem logosDir st p) = died st"
  using assms
  by (auto simp: step_defs split: sum.splits option.splits prod.splits if_splits)

lemma process_file_throws:
  assumes "snd (try_block h rem st p (relative logosDir p) (key_of (relative logosDir p))) = Some e"
  shows "errors (process_file h rem logosDir st p) =
           errors st @ [(relative logosDir p, error_message e)] \<and>
         uploaded (process_file h rem logosDir st p) = uploaded st \<and>
         skipped (process_file h rem logosDir st p) = skipped st \<and>
         totalBytes (process_file h rem logosDir st p) = totalBytes st \<and>
         objects (process_file h rem logosDir st p) = objects st \<and>
         (\<not> died (process_file h rem logosDir st p) \<longrightarrow> \<not> died st) \<and>
         length (console (process_file h rem logosDir st p)) = length (console st) + 1"
  using assms
  by (auto simp: step_defs send_put_def
           split: sum.splits option.splits prod.splits if_splits)

lemma try_block_same_counts:
  assumes "same_counts s t"
  shows "snd (try_block h rem s p rel key) = snd (try_block h rem t p rel key) \<and>
         same_counts (fst (try_block h rem s p rel key)) (fst (try_block h rem t p rel key))"
  using assms
  by (auto simp: try_block_def uploadFile_def called_def Let_def same_counts_def
           split: sum.splits option.splits prod.splits if_splits)

lemma process_file_same_counts:
  assumes "same_counts s t"
  shows "same_counts (process_file h rem logosDir s p) (process_file h rem logosDir t p)"
proof -
  let ?rel = "relative logosDir p"
  obtain s' x where s: "try_block h rem s p ?rel (key_of ?rel) = (s', x)"
    by (cases "try_block h rem s p ?rel (key_of ?rel)")
  obtain t' y where t: "try_block h rem t p ?rel (key_of ?rel) = (t', y)"
    by (cases "try_block h rem t p ?rel (key_of ?rel)")
  from try_block_same_counts[OF assms, of h rem p ?rel "key_of ?rel"] s t
  have "x = y" "same_counts s' t'" by simp_all
  then show ?thesis
    using s t by (cases y) (simp_all add: process_file_def Let_def record_error_def same_counts_def)
qed

lemma sync_loop_same_counts:
  "same_counts s t \<Longrightarrow>
   same_counts (sync_loop h rem logosDir s ps) (sync_loop h rem logosDir t ps)"
proof (induction ps arbitrary: s t)
  case Nil
  then show ?case by simp
next
  case (Cons p ps)
  from process_file_same_counts[OF Cons.prems]
  have sc: "same_counts (process_file h rem logosDir s p) (process_file h rem logosDir t p)" .
  then have "died (process_file h rem logosDir s p) = died (process_file h rem logosDir t p)"
    by (simp add: same_counts_def)
  with sc Cons.IH[OF sc] show ?case by (simp add: Let_def)
qed

lemma thrown_same_counts:
  "same_counts s t \<Longrightarrow> thrown h rem logosDir s ps = thrown h rem logosDir t ps"
proof (induction ps arbitrary: s t)
  case Nil
  then show ?case by simp
next
  case (Cons p ps)
  from process_file_same_counts[OF Cons.prems]
  have sc: "same_counts (process_file h rem logosDir s p) (process_file h rem logosDir t p)" .
  then have "died (process_file h rem logosDir s p) = died (process_file h rem logosDir t p)"
    by (simp add: same_counts_def)
  with try_block_same_counts[OF Cons.prems] Cons.IH[OF sc] show ?case by (simp add: Let_def)
qed

lemma alive_step:
  assumes "\<not> died (sync_loop h rem logosDir st (p # ps))"
  shows "\<not> died (process_file h rem logosDir st p)"
    and "sync_loop h rem logosDir st (p # ps) =
           sync_loop h rem logosDir (process_file h rem logosDir st p) ps"
    and "\<not> died (sync_loop h rem logosDir (process_file h rem logosDir st p) ps)"
  using assms by (auto simp: Let_def split: if_splits)

lemma length_thrown_alive:
  "\<not> died (sync_loop h rem logosDir st ps) \<Longrightarrow> length (thrown h rem logosDir st ps) = length ps"
proof (induction ps arbitrary: st)
  case Nil
  then show ?case by simp
next
  case (Cons p ps)
  from alive_step(1)[OF Cons.prems] Cons.IH[OF alive_step(3)[OF Cons.prems]]
  show ?case by (simp add: Let_def)
qed

lemma sync_loop_no_throw:
  assumes "thrown h rem logosDir st ps = replicate (length ps) None" and "\<not> died st"
  shows "errors (sync_loop h rem logosDir st ps) = errors st \<and>
         uploaded (sync_loop h rem logosDir st ps) + skipped (sync_loop h rem logosDir st ps) =
           uploaded st + skipped st + length ps \<and>
         \<not> died (sync_loop h rem logosDir st ps)"
  using assms
proof (induction ps arbitrary: st)
  case Nil
  then show ?case by simp
next
  case (Cons p ps)
  let ?st' = "process_file h rem logosDir st p"
  from Cons.prems(1) have
    here: "snd (try_block h rem st p (relative logosDir p) (key_of (relative logosDir p))) = None"
    by simp
  from process_file_completes[OF here] Cons.prems(2) have alive: "\<not> died ?st'" by simp
  with Cons.prems(1) have rest: "thrown h rem logosDir ?st' ps = replicate (length ps) None"
    by (simp add: Let_def)
  from Cons.IH[OF rest alive] process_file_completes[OF here] alive show ?case
    by (simp add: Let_def)
qed

lemma length_console_alive:
  "\<not> died (sync_loop h rem logosDir st ps) \<Longrightarrow>
   length (console (sync_loop h rem logosDir st ps)) = length (console st) + length ps"
proof (induction ps arbitrary: st)
  case Nil
  then show ?case by simp
next
  case (Cons p ps)
  have "length (console (process_file h rem logosDir st p)) = length (console st) + 1"
    by (cases "snd (try_block h rem st p (relative logosDir p) (key_of (relative logosDir p)))")
       (simp_all add: process_file_completes process_file_throws)
  with alive_step(2)[OF Cons.prems] Cons.IH[OF alive_step(3)[OF Cons.prems]]
  show ?case by (simp del: sync_loop.simps)
qed

text \<open>
  Where the process survives, one failure is isolated: when the \<^verbatim>\<open>try\<close> block ends
  with an exception for exactly one file of the list (at position \<open>i\<close>) and the loop ends
  alive, every file has been handled, the uploaded and skipped counts add up to the number
  of files less one, the error list is that file with the message of its error, and the
  counters and the bucket are those of the same run without that file.
\<close>

lemma one_failure_is_isolated_alive:
  assumes "thrown h rem logosDir st localFiles = replicate i None @ [Some e] @ replicate j None"
    and "\<not> died (sync_loop h rem logosDir st localFiles)"
    and "\<not> died st"
  shows "errors (sync_loop h rem logosDir st localFiles) =
           errors st @ [(relative logosDir (localFiles ! i), error_message e)] \<and>
         uploaded (sync_loop h rem logosDir st localFiles) +
           skipped (sync_loop h rem logosDir st localFiles) =
           uploaded st + skipped st + (length localFiles - 1) \<and>
         same_counts (sync_loop h rem logosDir st localFiles)
           (sync_loop h rem logosDir st (take i localFiles @ drop (Suc i) localFiles)) \<and>
         errors (sync_loop h rem logosDir st (take i localFiles @ drop (Suc i) localFiles)) =
           errors st"
  using assms
proof (induction localFiles arbitrary: st i)
  case Nil
  then show ?case by simp
next
  case (Cons p ps)
  let ?st' = "process_file h rem logosDir st p"
  note step = alive_step[OF Cons.prems(2)]
  from Cons.prems(1) step(1) have
    tl: "snd (try_block h rem st p (relative logosDir p) (key_of (relative logosDir p))) #
           thrown h rem logosDir ?st' ps = replicate i None @ [Some e] @ replicate j None"
    by (simp add: Let_def)
  note alive' = step(3)
  show ?case
  proof (cases i)
    case 0
    with tl have
      here: "snd (try_block h rem st p (relative logosDir p) (key_of (relative logosDir p))) = Some e"
      and rest: "thrown h rem logosDir ?st' ps = replicate j None"
      by simp_all
    from rest length_thrown_alive[OF alive'] have j: "j = length ps" by simp
    note thr = process_file_throws[OF here]
    from thr step Cons.prems(3) have sc: "same_counts ?st' st"
      by (simp add: same_counts_def)
    from rest j have r1: "thrown h rem logosDir ?st' ps = replicate (length ps) None" by simp
    with thrown_same_counts[OF sc] have r2: "thrown h rem logosDir st ps = replicate (length ps) None"
      by simp
    note a = sync_loop_no_throw[OF r1] sync_loop_no_throw[OF r2 Cons.prems(3)]
    from a thr step sync_loop_same_counts[OF sc, of h rem logosDir ps] 0 show ?thesis
      by (simp add: same_counts_def)
  next
    case (Suc i')
    with tl have
      here: "snd (try_block h rem st p (relative logosDir p) (key_of (relative logosDir p))) = None"
      and rest: "thrown h rem logosDir ?st' ps = replicate i' None @ [Some e] @ replicate j None"
      by simp_all
    note c = process_file_completes[OF here]
    from c Cons.prems(3) have alive: "\<not> died ?st'" by simp
    from Cons.IH[OF rest alive' alive] have ih:
      "errors (sync_loop h rem logosDir ?st' ps) =
         errors ?st' @ [(relative logosDir (ps ! i'), error_message e)]"
      "uploaded (sync_loop h rem logosDir ?st' ps) + skipped (sync_loop h rem logosDir ?st' ps) =
         uploaded ?st' + skipped ?st' + (length ps - 1)"
      "same_counts (sync_loop h rem logosDir ?st' ps)
         (sync_loop h rem logosDir ?st' (take i' ps @ drop (Suc i') ps))"
      "errors (sync_loop h rem logosDir ?st' (take i' ps @ drop (Suc i') ps)) = errors ?st'"
      by simp_all
    from rest length_thrown_alive[OF alive'] have "0 < length ps" by auto
    with ih c step alive Suc show ?thesis
      by (simp add: Let_def)
  qed
qed

text \<open>
  So it is with a PUT request that fails: the second of three files is not sent, the
  first and the third are uploaded.
\<close>

lemma put_failure_is_isolated:
  "thrown example_host flaky_remote ''logos'' (init_state Map.empty) three_files =
     replicate 1 None @ [Some (Error ''TimeoutError'' ''socket hang up'')] @ replicate 1 None \<and>
   \<not> died (sync_loop example_host flaky_remote ''logos'' (init_state Map.empty) three_files) \<and>
   uploaded (sync_loop example_host flaky_remote ''logos'' (init_state Map.empty) three_files) +
     skipped (sync_loop example_host flaky_remote ''logos'' (init_state Map.empty) three_files) = 2 \<and>
   errors (sync_loop example_host flaky_remote ''logos'' (init_state Map.empty) three_files) =
     [(''england/b.png'', ''socket hang up'')]"
proof -
  have t: "thrown example_host flaky_remote ''logos'' (init_state Map.empty) three_files =
     replicate 1 None @ [Some (Error ''TimeoutError'' ''socket hang up'')] @ replicate 1 None"
    by code_simp
  have a: "\<not> died (sync_loop example_host flaky_remote ''logos'' (init_state Map.empty)
                      three_files)"
    by code_simp
  have z: "\<not> died (init_state Map.empty)" "errors (init_state Map.empty) = []"
    "uploaded (init_state Map.empty) = 0" "skipped (init_state Map.empty) = 0"
    by (simp_all add: init_state_def)
  have n: "length three_files = 3" "relative ''logos'' (three_files ! 1) = ''england/b.png''"
    by (simp_all add: three_files_def relative_def)
  from one_failure_is_isolated_alive[OF t a z(1)] n z t a show ?thesis
    by simp
qed

lemma three_scan: "getFiles ''logos'' three_tree [] = Inr three_files"
  by code_simp

text \<open>
  C4. Failure isolation does not hold for a failure of \<^verbatim>\<open>statSync\<close>. Of three files,
  the second is gone when \<^verbatim>\<open>uploadFile\<close> stats it: the inner \<^verbatim>\<open>catch\<close> records the
  error, but the read stream created just before, which nobody listens to, fails as well,
  and the process ends with status 1 while the loop waits for the read of the third file.
  That file never reaches a terminal state: it is neither looked up nor uploaded, skipped
  or reported (two console lines for three files), and the uploaded and skipped counts add
  up to one, not two.
\<close>

theorem stat_failure_ends_run:
  "getFiles ''logos'' three_tree [] = Inr three_files \<and>
   thrown vanishing_host example_remote ''logos'' (init_state Map.empty) three_files =
     [None, Some (Error ''Error'' ''ENOENT: no such file or directory, stat'')] \<and>
   (\<exists>st. syncToR2 vanishing_host example_remote Map.empty ''logos'' three_tree = StreamCrash st \<and>
         console st = [Uploaded ''a.svg'',
                       ErrorLine ''england/b.png'' ''ENOENT: no such file or directory, stat''] \<and>
         errors st = [(''england/b.png'', ''ENOENT: no such file or directory, stat'')] \<and>
         uploaded st = 1 \<and> skipped st = 0 \<and>
         objects st ''football_logos/c.json'' = None \<and>
         ops st = [ReadFile ''logos/a.svg'', HeadObject ''football_logos/a.svg'',
                   StatSync ''logos/a.svg'', PutObject ''football_logos/a.svg'' ''image/svg+xml'',
                   ReadFile ''logos/england/b.png'', HeadObject ''football_logos/england/b.png'',
                   StatSync ''logos/england/b.png'', ReadFile ''logos/c.json'']) \<and>
   exit_status (syncToR2 vanishing_host example_remote Map.empty ''logos'' three_tree) = 1"
proof -
  let ?st = "sync_loop vanishing_host example_remote ''logos'' (init_state Map.empty) three_files"
  have t: "thrown vanishing_host example_remote ''logos'' (init_state Map.empty) three_files =
     [None, Some (Error ''Error'' ''ENOENT: no such file or directory, stat'')]"
    by code_simp
  have d: "died ?st" by code_simp
  then have run: "syncToR2 vanishing_host example_remote Map.empty ''logos'' three_tree =
                    StreamCrash ?st"
    by (simp add: syncToR2_def after_loop_def three_scan)
  have c: "console ?st = [Uploaded ''a.svg'',
                       ErrorLine ''england/b.png'' ''ENOENT: no such file or directory, stat'']"
    by code_simp
  have e: "errors ?st = [(''england/b.png'', ''ENOENT: no such file or directory, stat'')]"
    by code_simp
  have u: "uploaded ?st = 1" "skipped ?st = 0" by code_simp+
  have b: "objects ?st ''football_logos/c.json'' = None" by code_simp
  have o: "ops ?st = [ReadFile ''logos/a.svg'', HeadObject ''football_logos/a.svg'',
                   StatSync ''logos/a.svg'', PutObject ''football_logos/a.svg'' ''image/svg+xml'',
                   ReadFile ''logos/england/b.png'', HeadObject ''football_logos/england/b.png'',
                   StatSync ''logos/england/b.png'', ReadFile ''logos/c.json'']"
    by code_simp
  from three_scan t run c e u b o show ?thesis by simp
qed

subsection \<open>Byte accounting\<close>

lemma process_file_transferred:
  "totalBytes (process_file h rem logosDir st p) =
     totalBytes st + transferred h rem (objects st) logosDir p"
  by (auto simp: step_defs transferred_def decision_def send_put_def getFileHash_def
           split: sum.splits option.splits prod.splits if_splits)

lemma sync_loop_transfers:
  "totalBytes (sync_loop h rem logosDir st ps) =
     totalBytes st + sum_list (transfers h rem logosDir st ps)"
proof (induction ps arbitrary: st)
  case Nil
  then show ?case by simp
next
  case (Cons p ps)
  from Cons.IH[of "process_file h rem logosDir st p"]
       process_file_transferred[of h rem logosDir st p]
  show ?case by (simp add: Let_def)
qed

lemma length_transfers: "length (transfers h rem logosDir st ps) = length (thrown h rem logosDir st ps)"
  by (induction ps arbitrary: st) (simp_all add: Let_def)

lemma process_file_unchanged:
  assumes "getFileHash h p = Inr localHash"
    and "getR2FileETag rem (objects st) (key_of (relative logosDir p)) = Inr r2Hash"
    and "decision r2Hash localHash = Unchanged"
  shows "transferred h rem (objects st) logosDir p = 0 \<and>
         totalBytes (process_file h rem logosDir st p) = totalBytes st \<and>
         objects (process_file h rem logosDir st p) = objects st \<and>
         skipped (process_file h rem logosDir st p) = skipped st + 1 \<and>
         console (process_file h rem logosDir st p) = console st @ [Skip (relative logosDir p)] \<and>
         ops (process_file h rem logosDir st p) =
           ops st @ [ReadFile p, HeadObject (key_of (relative logosDir p))]"
  using assms
  by (auto simp: step_defs transferred_def decision_def split: sum.splits if_splits)

lemma process_file_put_succeeds:
  assumes "readFile h p = Inr content"
    and "getR2FileETag rem (objects st) (key_of (relative logosDir p)) = Inr r2Hash"
    and "decision r2Hash (md5 h content) \<noteq> Unchanged"
    and "statSync h p = Inr n"
    and "put_fault rem (key_of (relative logosDir p)) = None"
  shows "transferred h rem (objects st) logosDir p = n \<and>
         totalBytes (process_file h rem logosDir st p) = totalBytes st + n \<and>
         uploaded (process_file h rem logosDir st p) = uploaded st + 1 \<and>
         errors (process_file h rem logosDir st p) = errors st \<and>
         objects (process_file h rem logosDir st p) =
           (objects st)(key_of (relative logosDir p) \<mapsto>
              \<lparr> ETag = etag_of rem content, ContentType = contentType_of p \<rparr>) \<and>
         console (process_file h rem logosDir st p) =
           console st @ [if decision r2Hash (md5 h content) = Modified
                         then Updated (relative logosDir p) else Uploaded (relative logosDir p)] \<and>
         ops (process_file h rem logosDir st p) =
           ops st @ [ReadFile p, HeadObject (key_of (relative logosDir p)), StatSync p,
                     PutObject (key_of (relative logosDir p)) (contentType_of p)]"
  using assms
  by (auto simp: step_defs transferred_def decision_def send_put_def getFileHash_def
           split: sum.splits if_splits)

lemma process_file_put_fails:
  assumes "readFile h p = Inr content"
    and "getR2FileETag rem (objects st) (key_of (relative logosDir p)) = Inr r2Hash"
    and "decision r2Hash (md5 h content) \<noteq> Unchanged"
    and "statSync h p = Inr n"
    and "put_fault rem (key_of (relative logosDir p)) = Some e"
  shows "transferred h rem (objects st) logosDir p = 0 \<and>
         totalBytes (process_file h rem logosDir st p) = totalBytes st \<and>
         uploaded (process_file h rem logosDir st p) = uploaded st \<and>
         skipped (process_file h rem logosDir st p) = skipped st \<and>
         objects (process_file h rem logosDir st p) = objects st \<and>
         errors (process_file h rem logosDir st p) =
           errors st @ [(relative logosDir p, error_message e)] \<and>
         console (process_file h rem logosDir st p) =
           console st @ [ErrorLine (relative logosDir p) (error_message e)]"
  using assms
  by (auto simp: step_defs transferred_def decision_def send_put_def getFileHash_def
           split: sum.splits if_splits)

lemma process_file_failed_adds_nothing:
  assumes "snd (try_block h rem st p (relative logosDir p) (key_of (relative logosDir p))) = Some e"
  shows "transferred h rem (objects st) logosDir p = 0 \<and>
         totalBytes (process_file h rem logosDir st p) = totalBytes st \<and>
         objects (process_file h rem logosDir st p) = objects st"
  using assms process_file_transferred[of h rem logosDir st p] process_file_throws[OF assms]
  by simp

text \<open>
  C7. The total of bytes the loop ends with is the sum, over the files it handled, of what
  each transferred: the size \<^verbatim>\<open>statSync\<close> gave for a file classified New or Modified
  whose PUT request did not fail, and nothing for any other file. In a run that reaches
  its summary every scanned file is among them. File by file: an Unchanged file transfers
  nothing, leaves total and bucket alone, and is only read once for its digest and looked
  up (no \<^verbatim>\<open>statSync\<close>, no read stream, no PUT); a New or Modified file whose PUT
  succeeds adds its size, after the PUT has been sent, and the bucket then holds the object
  made of its content; one whose PUT fails adds nothing, stores nothing, is not counted as
  uploaded and is recorded as an error; and any file whose \<^verbatim>\<open>try\<close> block ends with an
  exception adds nothing.
\<close>

theorem totalBytes_is_sum_of_successful_uploads:
  "totalBytes (sync_loop h rem logosDir (init_state b) localFiles) =
     sum_list (transfers h rem logosDir (init_state b) localFiles) \<and>
   (syncToR2 h rem b logosDir tree = SyncComplete fin \<longrightarrow>
      (\<exists>scanned. getFiles logosDir tree [] = Inr scanned \<and>
         length (transfers h rem logosDir (init_state b) scanned) = length scanned \<and>
         totalBytes fin = sum_list (transfers h rem logosDir (init_state b) scanned))) \<and>
   (getFileHash h p = Inr localHash \<and>
    getR2FileETag rem (objects st) (key_of (relative logosDir p)) = Inr r2Hash \<and>
    decision r2Hash localHash = Unchanged \<longrightarrow>
      transferred h rem (objects st) logosDir p = 0 \<and>
      totalBytes (process_file h rem logosDir st p) = totalBytes st \<and>
      objects (process_file h rem logosDir st p) = objects st \<and>
      skipped (process_file h rem logosDir st p) = skipped st + 1 \<and>
      console (process_file h rem logosDir st p) = console st @ [Skip (relative logosDir p)] \<and>
      ops (process_file h rem logosDir st p) =
        ops st @ [ReadFile p, HeadObject (key_of (relative logosDir p))]) \<and>
   (readFile h p = Inr content \<and>
    getR2FileETag rem (objects st) (key_of (relative logosDir p)) = Inr r2Hash \<and>
    decision r2Hash (md5 h content) \<noteq> Unchanged \<and>
    statSync h p = Inr n \<and>
    put_fault rem (key_of (relative logosDir p)) = None \<longrightarrow>
      transferred h rem (objects st) logosDir p = n \<and>
      totalBytes (process_file h rem logosDir st p) = totalBytes st + n \<and>
      uploaded (process_file h rem logosDir st p) = uploaded st + 1 \<and>
      errors (process_file h rem logosDir st p) = errors st \<and>
      objects (process_file h rem logosDir st p) =
        (objects st)(key_of (relative logosDir p) \<mapsto>
           \<lparr> ETag = etag_of rem content, ContentType = contentType_of p \<rparr>) \<and>
      console (process_file h rem logosDir st p) =
        console st @ [if decision r2Hash (md5 h content) = Modified
                      then Updated (relative logosDir p) else Uploaded (relative logosDir p)] \<and>
      ops (process_file h rem logosDir st p) =
        ops st @ [ReadFile p, HeadObject (key_of (relative logosDir p)), StatSync p,
                  PutObject (key_of (relative logosDir p)) (contentType_of p)]) \<and>
   (readFile h p = Inr content \<and>
    getR2FileETag rem (objects st) (key_of (relative logosDir p)) = Inr r2Hash \<and>
    decision r2Hash (md5 h content) \<noteq> Unchanged \<and>
    statSync h p = Inr n \<and>
    put_fault rem (key_of (relative logosDir p)) = Some e \<longrightarrow>
      transferred h rem (objects st) logosDir p = 0 \<and>
      totalBytes (process_file h rem logosDir st p) = totalBytes st \<and>
      uploaded (process_file h rem logosDir st p) = uploaded st \<and>
      skipped (process_file h rem logosDir st p) = skipped st \<and>
      objects (process_file h rem logosDir st p) = objects st \<and>
      errors (process_file h rem logosDir st p) =
        errors st @ [(relative logosDir p, error_message e)] \<and>
      console (process_file h rem logosDir st p) =
        console st @ [ErrorLine (relative logosDir p) (error_message e)]) \<and>
   (snd (try_block h rem st p (relative logosDir p) (key_of (relative logosDir p))) = Some e \<longrightarrow>
      transferred h rem (objects st) logosDir p = 0 \<and>
      totalBytes (process_file h rem logosDir st p) = totalBytes st \<and>
      objects (process_file h rem logosDir st p) = objects st)"
proof (intro conjI impI)
  show "totalBytes (sync_loop h rem logosDir (init_state b) localFiles) =
     sum_list (transfers h rem logosDir (init_state b) localFiles)"
    using sync_loop_transfers[of h rem logosDir "init_state b" localFiles]
    by (simp add: init_state_def)
  show "\<exists>scanned. getFiles logosDir tree [] = Inr scanned \<and>
         length (transfers h rem logosDir (init_state b) scanned) = length scanned \<and>
         totalBytes fin = sum_list (transfers h rem logosDir (init_state b) scanned)"
    if run: "syncToR2 h rem b logosDir tree = SyncComplete fin"
  proof -
    from run obtain scanned where
      scan: "getFiles logosDir tree [] = Inr scanned" and
      fin: "fin = sync_loop h rem logosDir (init_state b) scanned" and
      alive: "\<not> died fin"
      by (auto simp: syncToR2_complete)
    from alive have "length (transfers h rem logosDir (init_state b) scanned) = length scanned"
      unfolding fin by (simp add: length_transfers length_thrown_alive)
    moreover have "totalBytes fin = sum_list (transfers h rem logosDir (init_state b) scanned)"
      unfolding fin using sync_loop_transfers[of h rem logosDir "init_state b" scanned]
      by (simp add: init_state_def)
    ultimately show ?thesis using scan by blast
  qed
next
  assume a: "getFileHash h p = Inr localHash \<and>
    getR2FileETag rem (objects st) (key_of (relative logosDir p)) = Inr r2Hash \<and>
    decision r2Hash localHash = Unchanged"
  note r = process_file_unchanged[of h p localHash rem st logosDir r2Hash]
  from a r show "transferred h rem (objects st) logosDir p = 0" by simp
  from a r show "totalBytes (process_file h rem logosDir st p) = totalBytes st" by simp
  from a r show "objects (process_file h rem logosDir st p) = objects st" by simp
  from a r show "skipped (process_file h rem logosDir st p) = skipped st + 1" by simp
  from a r show "console (process_file h rem logosDir st p) =
      console st @ [Skip (relative logosDir p)]" by simp
  from a r show "ops (process_file h rem logosDir st p) =
        ops st @ [ReadFile p, HeadObject (key_of (relative logosDir p))]" by simp
next
  assume a: "readFile h p = Inr content \<and>
    getR2FileETag rem (objects st) (key_of (relative logosDir p)) = Inr r2Hash \<and>
    decision r2Hash (md5 h content) \<noteq> Unchanged \<and>
    statSync h p = Inr n \<and>
    put_fault rem (key_of (relative logosDir p)) = None"
  note r = process_file_put_succeeds[of h p content rem st logosDir r2Hash n]
  from a r show "transferred h rem (objects st) logosDir p = n" by simp
  from a r show "totalBytes (process_file h rem logosDir st p) = totalBytes st + n" by simp
  from a r show "uploaded (process_file h rem logosDir st p) = uploaded st + 1" by simp
  from a r show "errors (process_file h rem logosDir st p) = errors st" by simp
  from a r show "objects (process_file h rem logosDir st p) =
        (objects st)(key_of (relative logosDir p) \<mapsto>
           \<lparr> ETag = etag_of rem content, ContentType = contentType_of p \<rparr>)" by simp
  from a r show "console (process_file h rem logosDir st p) =
        console st @ [if decision r2Hash (md5 h content) = Modified
                      then Updated (relative logosDir p) else Uploaded (relative logosDir p)]"
    by simp
  from a r show "ops (process_file h rem logosDir st p) =
        ops st @ [ReadFile p, HeadObject (key_of (relative logosDir p)), StatSync p,
                  PutObject (key_of (relative logosDir p)) (contentType_of p)]" by simp
next
  assume a: "readFile h p = Inr content \<and>
    getR2FileETag rem (objects st) (key_of (relative logosDir p)) = Inr r2Hash \<and>
    decision r2Hash (md5 h content) \<noteq> Unchanged \<and>
    statSync h p = Inr n \<and>
    put_fault rem (key_of (relative logosDir p)) = Some e"
  note r = process_file_put_fails[of h p content rem st logosDir r2Hash n e]
  from a r show "transferred h rem (objects st) logosDir p = 0" by simp
  from a r show "totalBytes (process_file h rem logosDir st p) = totalBytes st" by simp
  from a r show "uploaded (process_file h rem logosDir st p) = uploaded st" by simp
  from a r show "skipped (process_file h rem logosDir st p) = skipped st" by simp
  from a r show "objects (process_file h rem logosDir st p) = objects st" by simp
  from a r show "errors (process_file h rem logosDir st p) =
        errors st @ [(relative logosDir p, error_message e)]" by simp
  from a r show "console (process_file h rem logosDir st p) =
        console st @ [ErrorLine (relative logosDir p) (error_message e)]" by simp
next
  assume a: "snd (try_block h rem st p (relative logosDir p) (key_of (relative logosDir p))) = Some e"
  note r = process_file_failed_adds_nothing[OF a]
  from r show "transferred h rem (objects st) logosDir p = 0" by simp
  from r show "totalBytes (process_file h rem logosDir st p) = totalBytes st" by simp
  from r show "objects (process_file h rem logosDir st p) = objects st" by simp
qed

theorem totalBytes_is_sum_of_successful_uploads_witness:
  "(\<exists>fin. syncToR2 example_host flaky_remote synced_bucket ''logos'' three_tree = SyncComplete fin \<and>
          getFiles ''logos'' three_tree [] = Inr three_files \<and>
          transfers example_host flaky_remote ''logos'' (init_state synced_bucket) three_files =
            [0, 0, 6] \<and>
          console fin = [Skip ''a.svg'', ErrorLine ''england/b.png'' ''socket hang up'',
                         Uploaded ''c.json''] \<and>
          totalBytes fin = 6) \<and>
   getFileHash example_host ''logos/a.svg'' = Inr ''0f<svg/>'' \<and>
   getR2FileETag example_remote synced_bucket ''football_logos/a.svg'' = Inr (Str ''0f<svg/>'') \<and>
   decision (Str ''0f<svg/>'') ''0f<svg/>'' = Unchanged \<and>
   totalBytes (process_file example_host example_remote ''logos'' (init_state synced_bucket)
                 ''logos/a.svg'') = 0 \<and>
   ops (process_file example_host example_remote ''logos'' (init_state synced_bucket)
          ''logos/a.svg'') = [ReadFile ''logos/a.svg'', HeadObject ''football_logos/a.svg''] \<and>
   readFile example_host ''logos/a.svg'' = Inr ''<svg/>'' \<and>
   getR2FileETag example_remote Map.empty ''football_logos/a.svg'' = Inr Null \<and>
   decision Null ''0f<svg/>'' = New \<and>
   statSync example_host ''logos/a.svg'' = Inr 6 \<and>
   put_fault example_remote ''football_logos/a.svg'' = None \<and>
   totalBytes (process_file example_host example_remote ''logos'' (init_state Map.empty)
                 ''logos/a.svg'') = 6 \<and>
   objects (process_file example_host example_remote ''logos'' (init_state Map.empty)
              ''logos/a.svg'') ''football_logos/a.svg'' =
     Some \<lparr> ETag = Some (quoted ''0f<svg/>''), ContentType = ''image/svg+xml'' \<rparr> \<and>
   put_fault flaky_remote ''football_logos/england/b.png'' =
     Some (Error ''TimeoutError'' ''socket hang up'') \<and>
   snd (try_block example_host flaky_remote (init_state Map.empty) ''logos/england/b.png''
          ''england/b.png'' ''football_logos/england/b.png'') =
     Some (Error ''TimeoutError'' ''socket hang up'') \<and>
   transferred example_host flaky_remote Map.empty ''logos'' ''logos/england/b.png'' = 0 \<and>
   totalBytes (process_file example_host flaky_remote ''logos'' (init_state Map.empty)
                 ''logos/england/b.png'') = 0 \<and>
   uploaded (process_file example_host flaky_remote ''logos'' (init_state Map.empty)
               ''logos/england/b.png'') = 0 \<and>
   objects (process_file example_host flaky_remote ''logos'' (init_state Map.empty)
              ''logos/england/b.png'') ''football_logos/england/b.png'' = None \<and>
   errors (process_file example_host flaky_remote ''logos'' (init_state Map.empty)
             ''logos/england/b.png'') = [(''england/b.png'', ''socket hang up'')]"
proof -
  let ?a = "''logos/a.svg''"
  let ?b = "''logos/england/b.png''"
  let ?ka = "''football_logos/a.svg''"
  let ?kb = "''football_logos/england/b.png''"
  let ?e = "Error ''TimeoutError'' ''socket hang up''"
  let ?run = "sync_loop example_host flaky_remote ''logos'' (init_state synced_bucket) three_files"
  have ra: "relative ''logos'' ?a = ''a.svg''" and rb: "relative ''logos'' ?b = ''england/b.png''"
    by (simp_all add: relative_def)
  have ka: "key_of ''a.svg'' = ?ka" and kb: "key_of ''england/b.png'' = ?kb"
    by (simp_all add: key_of_def)
  have z: "totalBytes (init_state bk) = 0" "uploaded (init_state bk) = 0"
    "errors (init_state bk) = []" "ops (init_state bk) = []" "objects (init_state bk) = bk" for bk
    by (simp_all add: init_state_def)
  have read: "readFile example_host q = Inr ''<svg/>''" for q
    by (simp add: example_host_def)
  have hash: "getFileHash example_host q = Inr ''0f<svg/>''" for q
    by (simp add: getFileHash_def example_host_def)
  have md: "md5 example_host ''<svg/>'' = ''0f<svg/>''"
    by (simp add: example_host_def)
  have stat: "statSync example_host q = Inr 6" for q
    by (simp add: example_host_def)
  have same: "getR2FileETag example_remote synced_bucket ?ka = Inr (Str ''0f<svg/>'')"
    by (simp add: getR2FileETag_def send_head_def example_remote_def synced_bucket_def
                  strip_quotes_def quoted_def)
  have absent: "getR2FileETag example_remote Map.empty ?ka = Inr Null"
    by (simp add: absent_resolves_Null example_remote_def)
  have absent_b: "getR2FileETag flaky_remote Map.empty ?kb = Inr Null"
    by (simp add: absent_resolves_Null flaky_remote_def)
  have d1: "decision (Str ''0f<svg/>'') ''0f<svg/>'' = Unchanged"
    by (simp add: decision_def)
  have d2: "decision Null ''0f<svg/>'' = New" "decision Null ''0f<svg/>'' \<noteq> Unchanged"
    "decision Null ''0f<svg/>'' \<noteq> Modified"
    by (simp_all add: decision_def)
  have pf: "put_fault example_remote ?ka = None"
    by (simp add: example_remote_def)
  have pfb: "put_fault flaky_remote ?kb = Some ?e"
    by (simp add: flaky_remote_def)
  have tag: "etag_of example_remote ''<svg/>'' = Some (quoted ''0f<svg/>'')"
    by (simp add: example_remote_def)
  have ct: "contentType_of ?a = ''image/svg+xml''"
    by code_simp
  have alive: "\<not> died ?run"
    by code_simp
  have run: "syncToR2 example_host flaky_remote synced_bucket ''logos'' three_tree =
               SyncComplete ?run"
    using alive by (simp add: syncToR2_complete three_scan)
  have tr: "transfers example_host flaky_remote ''logos'' (init_state synced_bucket) three_files =
              [0, 0, 6]"
    by code_simp
  have con: "console ?run = [Skip ''a.svg'', ErrorLine ''england/b.png'' ''socket hang up'',
                             Uploaded ''c.json'']"
    by code_simp
  have thr: "snd (try_block example_host flaky_remote (init_state Map.empty) ?b
                    ''england/b.png'' ?kb) = Some ?e"
    by code_simp
  note t0 = totalBytes_is_sum_of_successful_uploads
    [of example_host flaky_remote "''logos''" synced_bucket three_files three_tree ?run]
  have r0: "totalBytes ?run = 6"
    using t0[THEN conjunct2, THEN conjunct1] run three_scan tr by simp
  note t1 = totalBytes_is_sum_of_successful_uploads
    [of example_host example_remote "''logos''" _ _ _ _ ?a "''0f<svg/>''"
        "init_state synced_bucket" "Str ''0f<svg/>''",
     THEN conjunct2, THEN conjunct2, THEN conjunct1]
  have r1: "totalBytes (process_file example_host example_remote ''logos''
                          (init_state synced_bucket) ?a) = 0 \<and>
            ops (process_file example_host example_remote ''logos''
                   (init_state synced_bucket) ?a) = [ReadFile ?a, HeadObject ?ka]"
    using t1 hash same d1 by (simp add: ra ka z)
  note t2 = totalBytes_is_sum_of_successful_uploads
    [of example_host example_remote "''logos''" _ _ _ _ ?a _
        "init_state Map.empty" Null "''<svg/>''" 6,
     THEN conjunct2, THEN conjunct2, THEN conjunct2, THEN conjunct1]
  have r2: "totalBytes (process_file example_host example_remote ''logos''
                          (init_state Map.empty) ?a) = 6 \<and>
            objects (process_file example_host example_remote ''logos''
                          (init_state Map.empty) ?a) ?ka =
              Some \<lparr> ETag = Some (quoted ''0f<svg/>''), ContentType = ''image/svg+xml'' \<rparr>"
    using t2 read absent d2 stat pf by (simp add: ra ka z md tag ct)
  note t3 = totalBytes_is_sum_of_successful_uploads
    [of example_host flaky_remote "''logos''" _ _ _ _ ?b _
        "init_state Map.empty" Null "''<svg/>''" 6 ?e,
     THEN conjunct2, THEN conjunct2, THEN conjunct2, THEN conjunct2, THEN conjunct1]
  have r3: "totalBytes (process_file example_host flaky_remote ''logos''
                          (init_state Map.empty) ?b) = 0 \<and>
            uploaded (process_file example_host flaky_remote ''logos''
                          (init_state Map.empty) ?b) = 0 \<and>
            objects (process_file example_host flaky_remote ''logos''
                          (init_state Map.empty) ?b) ?kb = None \<and>
            errors (process_file example_host flaky_remote ''logos''
                          (init_state Map.empty) ?b) = [(''england/b.png'', ''socket hang up'')]"
    using t3 read absent_b d2 stat pfb by (simp add: rb kb z md)
  note t4 = totalBytes_is_sum_of_successful_uploads
    [of example_host flaky_remote "''logos''" _ _ _ _ ?b _
        "init_state Map.empty" _ _ _ ?e,
     THEN conjunct2, THEN conjunct2, THEN conjunct2, THEN conjunct2, THEN conjunct2]
  have r4: "transferred example_host flaky_remote Map.empty ''logos'' ?b = 0"
    using t4 thr by (simp add: rb kb z)
  from run three_scan tr con r0 have first:
    "\<exists>fin. syncToR2 example_host flaky_remote synced_bucket ''logos'' three_tree = SyncComplete fin \<and>
          getFiles ''logos'' three_tree [] = Inr three_files \<and>
          transfers example_host flaky_remote ''logos'' (init_state synced_bucket) three_files =
            [0, 0, 6] \<and>
          console fin = [Skip ''a.svg'', ErrorLine ''england/b.png'' ''socket hang up'',
                         Uploaded ''c.json''] \<and>
          totalBytes fin = 6"
    by blast
  from first hash[of ?a] same d1 r1 read[of ?a] absent d2(1) stat[of ?a] pf r2 pfb thr r4 r3
  show ?thesis by simp
qed

subsection \<open>Idempotence\<close>

lemma below_join: "below dir (join dir fname)"
  by (simp add: below_def join_def)

lemma below_join_trans: "below (join dir fname) p \<Longrightarrow> below dir p"
proof -
  assume a: "below (join dir fname) p"
  have "take (length dir + 1) p = take (length dir + 1) (take (length (join dir fname) + 1) p)"
    by (simp add: join_def min_def)
  also have "\<dots> = take (length dir + 1) (join dir fname @ ''/'')"
    using a by (simp add: below_def)
  also have "\<dots> = dir @ ''/''"
    by (simp add: join_def)
  finally show ?thesis by (simp add: below_def)
qed

lemma getFiles_below:
  "getFiles dir t fl = Inr out \<Longrightarrow> \<forall>p\<in>set fl. below root p \<Longrightarrow>
     (\<forall>p. below dir p \<longrightarrow> below root p) \<Longrightarrow> \<forall>p\<in>set out. below root p"
  "getFiles_loop dir es fl = Inr out \<Longrightarrow> \<forall>p\<in>set fl. below root p \<Longrightarrow>
     (\<forall>p. below dir p \<longrightarrow> below root p) \<Longrightarrow> \<forall>p\<in>set out. below root p"
proof (induction dir t fl and dir es fl arbitrary: out and out rule: getFiles_getFiles_loop.induct)
  case (1 dir e fileList)
  then show ?case by simp
next
  case (2 dir files fileList)
  then show ?case by simp
next
  case (3 dir fileList)
  then show ?case by simp
next
  case (4 dir fname files fileList)
  have "\<forall>p\<in>set (if match_ext fname then fileList @ [join dir fname] else fileList). below root p"
    using "4.prems"(2,3) below_join[of dir fname] by auto
  with "4.IH"[OF _ this "4.prems"(3)] "4.prems"(1) show ?case by simp
next
  case (5 dir fname sub files fileList)
  from "5.prems"(1) obtain fl' where
    sub: "getFiles (join dir fname) sub fileList = Inr fl'" and
    rest: "getFiles_loop dir files fl' = Inr out"
    by (auto split: sum.splits)
  have "\<forall>p. below (join dir fname) p \<longrightarrow> below root p"
    using "5.prems"(3) below_join_trans by blast
  from "5.IH"(1)[OF sub "5.prems"(2) this] have "\<forall>p\<in>set fl'. below root p" .
  from "5.IH"(2)[OF sub rest this "5.prems"(3)] show ?case .
qed

lemma scanned_below:
  "getFiles logosDir tree [] = Inr localFiles \<Longrightarrow> \<forall>p\<in>set localFiles. below logosDir p"
  using getFiles_below(1)[of logosDir tree "[]" localFiles logosDir] by simp

lemma key_inj:
  assumes "below dir p" "below dir q"
    and "key_of (relative dir p) = key_of (relative dir q)"
  shows "p = q"
proof -
  from assms(3) have "drop (length dir + 1) p = drop (length dir + 1) q"
    by (simp add: key_of_def relative_def)
  moreover from assms(1,2) have "take (length dir + 1) p = take (length dir + 1) q"
    by (simp add: below_def)
  ultimately show ?thesis by (metis append_take_drop_id)
qed

lemma getR2FileETag_Str:
  "getR2FileETag rem b key = Inr (Str x) \<longleftrightarrow>
     head_fault rem key = None \<and>
     (\<exists>obj t. b key = Some obj \<and> ETag obj = Some t \<and> strip_quotes t = x)"
proof -
  have e: "etag_result r = Inr (Str x) \<longleftrightarrow> (\<exists>t. r = Response (Some t) \<and> strip_quotes t = x)" for r
    by (cases r rule: etag_result.cases) auto
  show ?thesis
    unfolding getR2FileETag_def e
    by (auto simp: send_head_def NotFound_def split: option.splits)
qed


lemma step_establishes:
  assumes "tags_with_digest h rem"
    and "snd (try_block h rem st p (relative logosDir p) (key_of (relative logosDir p))) = None"
  shows "in_sync h (objects (process_file h rem logosDir st p)) logosDir p"
proof -
  let ?key = "key_of (relative logosDir p)"
  from assms(2) obtain content where c: "readFile h p = Inr content"
    by (auto simp: try_block_def getFileHash_def Let_def split: sum.splits)
  then have hash: "getFileHash h p = Inr (md5 h content)"
    by (simp add: getFileHash_def)
  from assms(2) hash obtain r2Hash where r: "getR2FileETag rem (objects st) ?key = Inr r2Hash"
    by (auto simp: try_block_def called_def Let_def split: sum.splits)
  show ?thesis
  proof (cases "r2Hash = Str (md5 h content)")
    case True
    with r obtain obj t where "objects st ?key = Some obj" "ETag obj = Some t"
      "strip_quotes t = md5 h content"
      using getR2FileETag_Str by auto
    moreover have "objects (process_file h rem logosDir st p) = objects st"
      using hash r True by (simp add: process_file_def try_block_def called_def Let_def)
    ultimately show ?thesis using c by (auto simp: in_sync_def)
  next
    case False
    from assms(1) obtain t where t: "etag_of rem content = Some t" "strip_quotes t = md5 h content"
      by (auto simp: tags_with_digest_def)
    from assms(2) hash r False c
    have "objects (process_file h rem logosDir st p) ?key =
            Some \<lparr> ETag = etag_of rem content, ContentType = contentType_of p \<rparr>"
      by (auto simp: process_file_def try_block_def uploadFile_def send_put_def called_def Let_def
               split: sum.splits option.splits)
    with t c show ?thesis by (auto simp: in_sync_def)
  qed
qed

lemma step_objects:
  "objects (process_file h rem logosDir st p) = objects st \<or>
   (\<exists>content. readFile h p = Inr content \<and>
      objects (process_file h rem logosDir st p) =
        (objects st)(key_of (relative logosDir p) \<mapsto>
           \<lparr> ETag = etag_of rem content, ContentType = contentType_of p \<rparr>))"
  by (auto simp: step_defs send_put_def getFileHash_def
           split: sum.splits option.splits prod.splits if_splits)

lemma step_preserves:
  assumes "tags_with_digest h rem"
    and "in_sync h (objects st) logosDir q"
    and "key_of (relative logosDir p) = key_of (relative logosDir q) \<longrightarrow> p = q"
  shows "in_sync h (objects (process_file h rem logosDir st p)) logosDir q"
  using step_objects[of h rem logosDir st p]
proof
  assume "objects (process_file h rem logosDir st p) = objects st"
  with assms(2) show ?thesis by simp
next
  assume "\<exists>content. readFile h p = Inr content \<and>
      objects (process_file h rem logosDir st p) =
        (objects st)(key_of (relative logosDir p) \<mapsto>
           \<lparr> ETag = etag_of rem content, ContentType = contentType_of p \<rparr>)"
  then obtain content where c: "readFile h p = Inr content"
    and o: "objects (process_file h rem logosDir st p) =
        (objects st)(key_of (relative logosDir p) \<mapsto>
           \<lparr> ETag = etag_of rem content, ContentType = contentType_of p \<rparr>)"
    by blast
  show ?thesis
  proof (cases "key_of (relative logosDir p) = key_of (relative logosDir q)")
    case True
    with assms(3) have "p = q" by simp
    moreover from assms(1) obtain t where "etag_of rem content = Some t"
      "strip_quotes t = md5 h content"
      by (auto simp: tags_with_digest_def)
    ultimately show ?thesis using c o by (auto simp: in_sync_def)
  next
    case False
    with assms(2) o show ?thesis by (auto simp: in_sync_def)
  qed
qed

lemma loop_preserves:
  assumes "tags_with_digest h rem"
    and "in_sync h (objects st) logosDir q"
    and "\<forall>p\<in>set ps. key_of (relative logosDir p) = key_of (relative logosDir q) \<longrightarrow> p = q"
  shows "in_sync h (objects (sync_loop h rem logosDir st ps)) logosDir q"
  using assms(2,3)
proof (induction ps arbitrary: st)
  case Nil
  then show ?case by simp
next
  case (Cons p ps)
  have "in_sync h (objects (process_file h rem logosDir st p)) logosDir q"
    using step_preserves[OF assms(1) Cons.prems(1)] Cons.prems(2) by simp
  with Cons.IH Cons.prems(2) show ?case by (simp add: Let_def)
qed


lemma first_run_syncs:
  assumes "tags_with_digest h rem"
    and "\<forall>p\<in>set ps. \<forall>q\<in>set ps.
           key_of (relative logosDir p) = key_of (relative logosDir q) \<longrightarrow> p = q"
    and "k < length ps"
    and "thrown h rem logosDir st ps ! k = None"
    and "\<not> died (sync_loop h rem logosDir st ps)"
  shows "in_sync h (objects (sync_loop h rem logosDir st ps)) logosDir (ps ! k)"
  using assms(2-5)
proof (induction ps arbitrary: st k)
  case Nil
  then show ?case by simp
next
  case (Cons p ps)
  let ?st' = "process_file h rem logosDir st p"
  note step = alive_step[OF Cons.prems(4)]
  show ?case
  proof (cases k)
    case 0
    with Cons.prems(3)
    have "snd (try_block h rem st p (relative logosDir p) (key_of (relative logosDir p))) = None"
      by simp
    from step_establishes[OF assms(1) this]
    have "in_sync h (objects ?st') logosDir p" .
    from loop_preserves[OF assms(1) this, of ps] Cons.prems(1)
    have "in_sync h (objects (sync_loop h rem logosDir ?st' ps)) logosDir p" by simp
    with step(2) 0 show ?thesis by (simp del: sync_loop.simps)
  next
    case (Suc k')
    with Cons.prems(2,3) step(1) have "k' < length ps"
      "thrown h rem logosDir ?st' ps ! k' = None"
      by (simp_all add: Let_def)
    with Cons.IH[of k' ?st'] Cons.prems(1) step(3)
    have "in_sync h (objects (sync_loop h rem logosDir ?st' ps)) logosDir (ps ! k')" by simp
    with step(2) Suc show ?thesis by (simp del: sync_loop.simps)
  qed
qed

lemma errors_grow:
  "\<exists>more. errors (sync_loop h rem logosDir st ps) = errors st @ more"
proof (induction ps arbitrary: st)
  case Nil
  then show ?case by simp
next
  case (Cons p ps)
  obtain m1 where "errors (process_file h rem logosDir st p) = errors st @ m1"
    using process_file_one_category[of h rem logosDir st p] by (auto simp: Let_def)
  moreover obtain m2 where
    "errors (sync_loop h rem logosDir (process_file h rem logosDir st p) ps) =
       errors (process_file h rem logosDir st p) @ m2"
    using Cons.IH by blast
  ultimately show ?case by (simp add: Let_def)
qed

lemma no_errors_no_throw:
  assumes "errors (sync_loop h rem logosDir st ps) = errors st"
    and "k < length ps"
    and "\<not> died (sync_loop h rem logosDir st ps)"
  shows "thrown h rem logosDir st ps ! k = None"
  using assms
proof (induction ps arbitrary: st k)
  case Nil
  then show ?case by simp
next
  case (Cons p ps)
  let ?st' = "process_file h rem logosDir st p"
  note step = alive_step[OF Cons.prems(3)]
  have whole: "errors (sync_loop h rem logosDir ?st' ps) = errors st"
    using Cons.prems(1) step(2) by (simp del: sync_loop.simps)
  obtain more where m: "errors (sync_loop h rem logosDir ?st' ps) = errors ?st' @ more"
    using errors_grow by blast
  have here: "snd (try_block h rem st p (relative logosDir p) (key_of (relative logosDir p))) = None"
  proof (rule ccontr)
    assume "snd (try_block h rem st p (relative logosDir p) (key_of (relative logosDir p))) \<noteq> None"
    then obtain e where
      "snd (try_block h rem st p (relative logosDir p) (key_of (relative logosDir p))) = Some e"
      by auto
    from process_file_throws[OF this] m whole show False by simp
  qed
  then have "errors ?st' = errors st"
    using process_file_completes by blast
  with whole have rest: "errors (sync_loop h rem logosDir ?st' ps) = errors ?st'"
    by simp
  show ?case
  proof (cases k)
    case 0
    with here show ?thesis by simp
  next
    case (Suc k')
    with Cons.prems(2) Cons.IH[OF rest _ step(3), of k'] step(1) show ?thesis
      by (simp add: Let_def)
  qed
qed

lemma step_skips_synced:
  assumes "in_sync h (objects st) logosDir p"
    and "head_fault rem (key_of (relative logosDir p)) = None"
  shows "process_file h rem logosDir st p =
           st\<lparr> ops := ops st @ [ReadFile p, HeadObject (key_of (relative logosDir p))],
               skipped := skipped st + 1,
               console := console st @ [Skip (relative logosDir p)] \<rparr>"
proof -
  from assms(1) obtain content obj t where c: "readFile h p = Inr content"
    "objects st (key_of (relative logosDir p)) = Some obj" "ETag obj = Some t"
    "strip_quotes t = md5 h content"
    by (auto simp: in_sync_def)
  then have "getR2FileETag rem (objects st) (key_of (relative logosDir p)) = Inr (Str (md5 h content))"
    using assms(2) getR2FileETag_Str by blast
  then show ?thesis
    using c(1) by (simp add: process_file_def try_block_def getFileHash_def called_def Let_def)
qed

lemma second_run_skips:
  assumes "\<forall>p\<in>set ps. in_sync h (objects st) logosDir p \<and>
                        head_fault rem (key_of (relative logosDir p)) = None"
    and "\<not> died st"
  shows "sync_loop h rem logosDir st ps =
           st\<lparr> ops := ops st @
                   concat (map (\<lambda>p. [ReadFile p, HeadObject (key_of (relative logosDir p))]) ps),
               skipped := skipped st + length ps,
               console := console st @ map (\<lambda>p. Skip (relative logosDir p)) ps \<rparr>"
  using assms
proof (induction ps arbitrary: st)
  case Nil
  then show ?case by simp
next
  case (Cons p ps)
  let ?st' = "process_file h rem logosDir st p"
  have s: "?st' = st\<lparr> ops := ops st @ [ReadFile p, HeadObject (key_of (relative logosDir p))],
               skipped := skipped st + 1,
               console := console st @ [Skip (relative logosDir p)] \<rparr>"
    using step_skips_synced[of h st logosDir p rem] Cons.prems by simp
  then have o: "objects ?st' = objects st" by simp
  from s Cons.prems(2) have alive: "\<not> died ?st'" by simp
  from o Cons.prems(1) have "\<forall>p\<in>set ps. in_sync h (objects ?st') logosDir p \<and>
                        head_fault rem (key_of (relative logosDir p)) = None"
    by simp
  from Cons.IH[OF this alive] alive
  have "sync_loop h rem logosDir st (p # ps) =
          ?st'\<lparr> ops := ops ?st' @
                   concat (map (\<lambda>p. [ReadFile p, HeadObject (key_of (relative logosDir p))]) ps),
               skipped := skipped ?st' + length ps,
               console := console ?st' @ map (\<lambda>p. Skip (relative logosDir p)) ps \<rparr>"
    by (simp add: Let_def)
  also have "\<dots> =
           st\<lparr> ops := ops st @
                   concat (map (\<lambda>p. [ReadFile p, HeadObject (key_of (relative logosDir p))]) (p # ps)),
               skipped := skipped st + length (p # ps),
               console := console st @ map (\<lambda>p. Skip (relative logosDir p)) (p # ps) \<rparr>"
    by (subst s, subst s, subst s, subst s) simp
  finally show ?case .
qed


lemma step_never_uploads_synced:
  assumes "in_sync h (objects st) logosDir p"
    and "genuine_faults rem (key_of (relative logosDir p))"
  shows "objects (process_file h rem logosDir st p) = objects st \<and>
         uploaded (process_file h rem logosDir st p) = uploaded st \<and>
         totalBytes (process_file h rem logosDir st p) = totalBytes st \<and>
         died (process_file h rem logosDir st p) = died st"
proof (cases "head_fault rem (key_of (relative logosDir p))")
  case None
  from step_skips_synced[OF assms(1) None] show ?thesis by simp
next
  case (Some e)
  with assms(2) have n: "error_name e \<noteq> ''NotFound''"
    by (simp add: genuine_faults_def)
  from assms(1) obtain content where c: "readFile h p = Inr content"
    by (auto simp: in_sync_def)
  have "getR2FileETag rem (objects st) (key_of (relative logosDir p)) = Inl e"
    using Some n by (simp add: getR2FileETag_def send_head_def)
  then show ?thesis
    using c by (simp add: process_file_def try_block_def getFileHash_def called_def Let_def
                  record_error_def)
qed

lemma second_run_never_uploads:
  assumes "\<forall>p\<in>set ps. in_sync h (objects st) logosDir p \<and>
                        genuine_faults rem (key_of (relative logosDir p))"
  shows "objects (sync_loop h rem logosDir st ps) = objects st \<and>
         uploaded (sync_loop h rem logosDir st ps) = uploaded st \<and>
         totalBytes (sync_loop h rem logosDir st ps) = totalBytes st \<and>
         died (sync_loop h rem logosDir st ps) = died st"
  using assms
proof (induction ps arbitrary: st)
  case Nil
  then show ?case by simp
next
  case (Cons p ps)
  let ?st' = "process_file h rem logosDir st p"
  have s: "objects ?st' = objects st \<and> uploaded ?st' = uploaded st \<and>
           totalBytes ?st' = totalBytes st \<and> died ?st' = died st"
    using step_never_uploads_synced[of h st logosDir p rem] Cons.prems by simp
  with Cons.prems have "\<forall>p\<in>set ps. in_sync h (objects ?st') logosDir p \<and>
                        genuine_faults rem (key_of (relative logosDir p))"
    by simp
  from Cons.IH[OF this] s show ?case by (simp add: Let_def)
qed

text \<open>
  C2, as the code has it. Two runs over the same tree on the same machine, the second
  starting from the bucket the first left; the first reaches its summary, against a store
  that tags an upload with the digest of its body. Every file the first run uploaded or
  skipped is in sync afterwards: the object under its key carries the file's digest as
  tag. When the first run recorded no failure, the second run reaches its summary too, has
  uploaded nothing and transferred no byte, and leaves the bucket as it is, provided no
  lookup wrongly reports \<open>NotFound\<close>; each file is then skipped or recorded as a failed
  lookup. When no lookup fails at all, it skips every file, sending nothing but one read
  and one HEAD per file.
\<close>

theorem second_run_uploads_nothing:
  assumes "tags_with_digest h rem1"
    and "syncToR2 h rem1 b logosDir tree = SyncComplete st1"
  shows "\<exists>localFiles. getFiles logosDir tree [] = Inr localFiles \<and>
     (\<forall>k<length localFiles.
        thrown h rem1 logosDir (init_state b) localFiles ! k = None \<longrightarrow>
        in_sync h (objects st1) logosDir (localFiles ! k)) \<and>
     (errors st1 = [] \<and>
      (\<forall>p\<in>set localFiles. genuine_faults rem2 (key_of (relative logosDir p))) \<longrightarrow>
        (\<exists>st2. syncToR2 h rem2 (objects st1) logosDir tree = SyncComplete st2 \<and>
           uploaded st2 = 0 \<and> totalBytes st2 = 0 \<and> objects st2 = objects st1 \<and>
           skipped st2 + length (errors st2) = length localFiles)) \<and>
     (errors st1 = [] \<and>
      (\<forall>p\<in>set localFiles. head_fault rem2 (key_of (relative logosDir p)) = None) \<longrightarrow>
        (\<exists>st2. syncToR2 h rem2 (objects st1) logosDir tree = SyncComplete st2 \<and>
           uploaded st2 = 0 \<and> totalBytes st2 = 0 \<and> skipped st2 = length localFiles \<and>
           errors st2 = [] \<and> objects st2 = objects st1 \<and>
           console st2 = map (\<lambda>p. Skip (relative logosDir p)) localFiles \<and>
           ops st2 =
             concat (map (\<lambda>p. [ReadFile p, HeadObject (key_of (relative logosDir p))])
                       localFiles)))"
proof -
  from assms(2) obtain localFiles where
    scan: "getFiles logosDir tree [] = Inr localFiles" and
    st1: "st1 = sync_loop h rem1 logosDir (init_state b) localFiles" and
    alive1: "\<not> died st1"
    by (auto simp: syncToR2_complete)
  let ?st2 = "sync_loop h rem2 logosDir (init_state (objects st1)) localFiles"
  have start: "\<not> died (init_state (objects st1))"
    by (simp add: init_state_def)
  have inj: "\<forall>p\<in>set localFiles. \<forall>q\<in>set localFiles.
           key_of (relative logosDir p) = key_of (relative logosDir q) \<longrightarrow> p = q"
    using scanned_below[OF scan] key_inj by blast
  have one: "in_sync h (objects st1) logosDir (localFiles ! k)"
    if "k < length localFiles" "thrown h rem1 logosDir (init_state b) localFiles ! k = None" for k
    using first_run_syncs[OF assms(1) inj that] alive1 unfolding st1 by simp
  have all_synced: "\<forall>p\<in>set localFiles. in_sync h (objects st1) logosDir p"
    if e: "errors st1 = []"
  proof -
    have "errors (sync_loop h rem1 logosDir (init_state b) localFiles) = errors (init_state b)"
      using e st1 by (simp add: init_state_def)
    from no_errors_no_throw[OF this] alive1
    have "\<forall>k<length localFiles. thrown h rem1 logosDir (init_state b) localFiles ! k = None"
      unfolding st1 by simp
    with one have "\<forall>k<length localFiles. in_sync h (objects st1) logosDir (localFiles ! k)"
      by simp
    then show ?thesis
      by (auto simp: in_set_conv_nth)
  qed
  have zero: "\<exists>st2. syncToR2 h rem2 (objects st1) logosDir tree = SyncComplete st2 \<and>
        uploaded st2 = 0 \<and> totalBytes st2 = 0 \<and> objects st2 = objects st1 \<and>
        skipped st2 + length (errors st2) = length localFiles"
    if e: "errors st1 = []"
      and f: "\<forall>p\<in>set localFiles. genuine_faults rem2 (key_of (relative logosDir p))"
  proof -
    from all_synced[OF e] f have "\<forall>p\<in>set localFiles.
        in_sync h (objects (init_state (objects st1))) logosDir p \<and>
        genuine_faults rem2 (key_of (relative logosDir p))"
      by (simp add: init_state_def)
    from second_run_never_uploads[OF this] have
      n: "objects ?st2 = objects st1 \<and> uploaded ?st2 = 0 \<and> totalBytes ?st2 = 0" and
      alive2: "\<not> died ?st2"
      by (simp_all add: init_state_def)
    from alive2 have run2: "syncToR2 h rem2 (objects st1) logosDir tree = SyncComplete ?st2"
      by (simp add: syncToR2_complete scan)
    from sync_loop_counts[OF alive2] n
    have "skipped ?st2 + length (errors ?st2) = length localFiles"
      by (simp add: init_state_def)
    with run2 n show ?thesis by blast
  qed
  have two: "\<exists>st2. syncToR2 h rem2 (objects st1) logosDir tree = SyncComplete st2 \<and>
        uploaded st2 = 0 \<and> totalBytes st2 = 0 \<and> skipped st2 = length localFiles \<and>
        errors st2 = [] \<and> objects st2 = objects st1 \<and>
        console st2 = map (\<lambda>p. Skip (relative logosDir p)) localFiles \<and>
        ops st2 =
          concat (map (\<lambda>p. [ReadFile p, HeadObject (key_of (relative logosDir p))]) localFiles)"
    if e: "errors st1 = []"
      and f: "\<forall>p\<in>set localFiles. head_fault rem2 (key_of (relative logosDir p)) = None"
  proof -
    from all_synced[OF e] f have "\<forall>p\<in>set localFiles.
        in_sync h (objects (init_state (objects st1))) logosDir p \<and>
        head_fault rem2 (key_of (relative logosDir p)) = None"
      by (simp add: init_state_def)
    note eq = second_run_skips[OF this start]
    have alive2: "\<not> died ?st2"
      by (subst eq) (simp add: init_state_def)
    then have run2: "syncToR2 h rem2 (objects st1) logosDir tree = SyncComplete ?st2"
      by (simp add: syncToR2_complete scan)
    have "uploaded ?st2 = 0 \<and> totalBytes ?st2 = 0 \<and> skipped ?st2 = length localFiles \<and>
        errors ?st2 = [] \<and> objects ?st2 = objects st1 \<and>
        console ?st2 = map (\<lambda>p. Skip (relative logosDir p)) localFiles \<and>
        ops ?st2 =
          concat (map (\<lambda>p. [ReadFile p, HeadObject (key_of (relative logosDir p))]) localFiles)"
      by (subst eq)+ (simp add: init_state_def)
    with run2 show ?thesis by blast
  qed
  from scan one zero two show ?thesis by blast
qed

lemma example_contract: "tags_with_digest example_host example_remote"
  by (simp add: tags_with_digest_def example_host_def example_remote_def quoted_def
        strip_quotes_def)

theorem second_run_uploads_nothing_witness:
  "tags_with_digest example_host example_remote \<and>
   (\<exists>st1 st2.
      syncToR2 example_host example_remote Map.empty ''logos'' example_tree = SyncComplete st1 \<and>
      syncToR2 example_host example_remote (objects st1) ''logos'' example_tree = SyncComplete st2 \<and>
      thrown example_host example_remote ''logos'' (init_state Map.empty)
        [''logos/a.svg'', ''logos/england/b.png''] ! 0 = None \<and>
      in_sync example_host (objects st1) ''logos'' ''logos/a.svg'' \<and>
      uploaded st1 = 2 \<and> errors st1 = [] \<and>
      genuine_faults example_remote ''football_logos/a.svg'' \<and>
      genuine_faults example_remote ''football_logos/england/b.png'' \<and>
      head_fault example_remote ''football_logos/a.svg'' = None \<and>
      head_fault example_remote ''football_logos/england/b.png'' = None \<and>
      uploaded st2 = 0 \<and> totalBytes st2 = 0 \<and> skipped st2 = 2 \<and> errors st2 = [] \<and>
      console st2 = [Skip ''a.svg'', Skip ''england/b.png''])"
proof -
  let ?files = "[''logos/a.svg'', ''logos/england/b.png'']"
  let ?st1 = "sync_loop example_host example_remote ''logos'' (init_state Map.empty) ?files"
  note r1 = example_run
  have t0: "thrown example_host example_remote ''logos'' (init_state Map.empty) ?files ! 0 = None"
    by code_simp
  have u1: "uploaded ?st1 = 2" by code_simp
  have e1: "errors ?st1 = []" by code_simp
  have hf: "head_fault example_remote key = None" for key
    by (simp add: example_remote_def)
  have gf: "genuine_faults example_remote key" for key
    by (simp add: genuine_faults_def example_remote_def)
  have rel: "map (\<lambda>p. Skip (relative ''logos'' p)) ?files = [Skip ''a.svg'', Skip ''england/b.png'']"
    by (simp add: relative_def)
  from second_run_uploads_nothing[OF example_contract r1, of example_remote] example_scan
  have t: "(\<forall>k<length ?files.
              thrown example_host example_remote ''logos'' (init_state Map.empty) ?files ! k = None \<longrightarrow>
              in_sync example_host (objects ?st1) ''logos'' (?files ! k)) \<and>
           (errors ?st1 = [] \<and>
            (\<forall>p\<in>set ?files. head_fault example_remote (key_of (relative ''logos'' p)) = None) \<longrightarrow>
              (\<exists>st2. syncToR2 example_host example_remote (objects ?st1) ''logos'' example_tree =
                        SyncComplete st2 \<and>
                 uploaded st2 = 0 \<and> totalBytes st2 = 0 \<and> skipped st2 = length ?files \<and>
                 errors st2 = [] \<and>
                 console st2 = map (\<lambda>p. Skip (relative ''logos'' p)) ?files))"
    by auto
  from t t0 have s: "in_sync example_host (objects ?st1) ''logos'' ''logos/a.svg''"
    by auto
  from t e1 hf rel obtain st2 where
    "syncToR2 example_host example_remote (objects ?st1) ''logos'' example_tree = SyncComplete st2"
    "uploaded st2 = 0 \<and> totalBytes st2 = 0 \<and> skipped st2 = 2 \<and> errors st2 = [] \<and>
        console st2 = [Skip ''a.svg'', Skip ''england/b.png'']"
    by auto
  with example_contract r1 t0 s u1 e1 hf gf show ?thesis by blast
qed

text \<open>
  C2 as stated fails when the first run does not upload every file: the PUT of one file
  fails in the first run (which records it and reaches its summary); the second run, with
  no local change, uploads that file.
\<close>

theorem failed_upload_is_sent_by_second_run:
  "tags_with_digest example_host flaky_remote \<and>
   (\<exists>st1 st2.
      syncToR2 example_host flaky_remote Map.empty ''logos'' example_tree = SyncComplete st1 \<and>
      syncToR2 example_host example_remote (objects st1) ''logos'' example_tree = SyncComplete st2 \<and>
      errors st1 = [(''england/b.png'', ''socket hang up'')] \<and>
      uploaded st2 = 1 \<and> totalBytes st2 = 6 \<and>
      console st2 = [Skip ''a.svg'', Uploaded ''england/b.png''])"
proof -
  let ?files = "[''logos/a.svg'', ''logos/england/b.png'']"
  let ?st1 = "sync_loop example_host flaky_remote ''logos'' (init_state Map.empty) ?files"
  let ?st2 = "sync_loop example_host example_remote ''logos'' (init_state (objects ?st1)) ?files"
  have c: "tags_with_digest example_host flaky_remote"
    by (simp add: tags_with_digest_def example_host_def flaky_remote_def quoted_def
          strip_quotes_def)
  have a1: "\<not> died ?st1" by code_simp
  have a2: "\<not> died ?st2" by code_simp
  from a1 have
    r1: "syncToR2 example_host flaky_remote Map.empty ''logos'' example_tree = SyncComplete ?st1"
    by (simp add: syncToR2_complete example_scan)
  from a2 have
    r2: "syncToR2 example_host example_remote (objects ?st1) ''logos'' example_tree =
              SyncComplete ?st2"
    by (simp add: syncToR2_complete example_scan)
  have e1: "errors ?st1 = [(''england/b.png'', ''socket hang up'')]" by code_simp
  have u2: "uploaded ?st2 = 1" by code_simp
  have b2: "totalBytes ?st2 = 6" by code_simp
  have c2: "console ?st2 = [Skip ''a.svg'', Uploaded ''england/b.png'']" by code_simp
  from c r1 r2 e1 u2 b2 c2 show ?thesis by blast
qed

end
